theory Spec2Isabelle
  imports Main "HOL-Library.AList" "HOL-Library.Char_ord" "HOL-Library.List_Lexorder"
    "HOL-Library.Multiset"
begin

section \<open>The BIRD Postgres schema converter\<close>

text \<open>
  A shallow embedding of \<^verbatim>\<open>scripts/curation/bird_schema_converter_postgres.py\<close>.
  The script opens one Postgres connection, reads the information-schema views and a few
  sample values per column, and assembles a nested dictionary keyed by database id and
  table name.

  The database the cursor talks to is a value of type \<open>database\<close>: the rows of the
  catalog views the SQL of the script reads, the stored column values, and the
  statements on which \<^verbatim>\<open>cur.execute\<close> raises. The catalog statements of the script
  are written out as list comprehensions over those rows; the sampling statement, whose
  text the script builds from the table and column names, is what its text says when
  the names hold no double quote and the server's answer to that text otherwise.
  Python dictionaries are
  association lists updated with \<open>AList.update\<close>, which keeps the position of an
  existing key and appends a new one, as a Python \<^verbatim>\<open>dict\<close> does. Exceptions are values
  of type \<open>error\<close>, and every function that can raise returns \<open>error + 'a\<close>.
  Python's \<^verbatim>\<open>str.lower\<close> is an argument \<open>lower\<close> of the functions that call it.
  Log messages are not modelled.
\<close>

subsection \<open>Strings\<close>

text \<open>
  Strings are byte lists (UTF-8), and the order of \<open>sorted\<close> on strings is the
  lexicographic order on bytes, which is the order of the code points.

  \<^verbatim>\<open>str.lower\<close> follows the Unicode case mapping. The functions that call it
  (lines 174 and 186) take it as their first argument \<open>lower\<close>, and everything proved
  about them holds for any such function. \<open>ascii_lower\<close> is \<^verbatim>\<open>str.lower\<close> on ASCII
  strings; the examples, whose names are all ASCII, are run with it. \<open>upper\<close> is
  \<^verbatim>\<open>str.upper\<close> on ASCII strings, which the data types of the catalog are.
\<close>

definition ascii_lower_char :: "char \<Rightarrow> char" where
  "ascii_lower_char c =
     (if CHR ''A'' \<le> c \<and> c \<le> CHR ''Z'' then char_of (of_char c + (32::nat)) else c)"

definition upper_char :: "char \<Rightarrow> char" where
  "upper_char c =
     (if CHR ''a'' \<le> c \<and> c \<le> CHR ''z'' then char_of (of_char c - (32::nat)) else c)"

definition ascii_lower :: "string \<Rightarrow> string" where
  "ascii_lower s = map ascii_lower_char s"

definition upper :: "string \<Rightarrow> string" where
  "upper s = map upper_char s"

subsection \<open>Values and their Python rendering\<close>

text \<open>
  The values a sampling query hands back: SQL \<^verbatim>\<open>NULL\<close> (Python \<^verbatim>\<open>None\<close>), integers,
  text, booleans, and any other Python value (\<^verbatim>\<open>Decimal\<close>, \<^verbatim>\<open>float\<close>, \<^verbatim>\<open>date\<close>,
  \<^verbatim>\<open>list\<close>, \<^verbatim>\<open>dict\<close>, ...). The script does one thing with a value: it calls
  \<^verbatim>\<open>str\<close> on it. So a value of another type is given by the string \<^verbatim>\<open>str\<close>
  returns on it. \<open>py_str\<close> is Python's \<^verbatim>\<open>str\<close>.
\<close>

datatype pg_value = PgNull | PgInt int | PgText string | PgBool bool | PgOther string

definition digit_char :: "nat \<Rightarrow> char" where
  "digit_char d = char_of (48 + d)"

function str_nat :: "nat \<Rightarrow> string" where
  "str_nat n = (if n < 10 then [digit_char n] else str_nat (n div 10) @ [digit_char (n mod 10)])"
  by pat_completeness auto
termination
  by (relation "measure id") auto

declare str_nat.simps [simp del]

definition str_int :: "int \<Rightarrow> string" where
  "str_int i = (if i < 0 then CHR ''-'' # str_nat (nat (- i)) else str_nat (nat i))"

fun py_str :: "pg_value \<Rightarrow> string" where
  "py_str PgNull = ''None''"
| "py_str (PgInt i) = str_int i"
| "py_str (PgText s) = s"
| "py_str (PgBool b) = (if b then ''True'' else ''False'')"
| "py_str (PgOther s) = s"

subsection \<open>Errors\<close>

datatype error =
    ConnectionFailed    \<comment> \<open>\<^verbatim>\<open>psycopg2.connect\<close> raises\<close>
  | QueryFailed         \<comment> \<open>\<^verbatim>\<open>cur.execute\<close> raises\<close>
  | RuntimeError        \<comment> \<open>\<^verbatim>\<open>raise RuntimeError("Missing POSTGRES_CONNECTION_STRING")\<close>\<close>
  | NameError           \<comment> \<open>a local variable is read before any assignment\<close>

subsection \<open>The database behind the cursor\<close>

text \<open>
  One record per catalog view, with the columns the script's SQL mentions. The field
  prefixes are the aliases of the SQL (\<open>tc\<close>, \<open>kcu\<close>, \<open>ccu\<close>).
\<close>

record tables_row =
  tbl_table_schema :: string
  tbl_table_name :: string

record table_constraints_row =
  tc_constraint_name :: string
  tc_table_name :: string
  tc_constraint_type :: string

record key_column_usage_row =
  kcu_constraint_name :: string
  kcu_table_name :: string
  kcu_column_name :: string

record constraint_column_usage_row =
  ccu_constraint_name :: string
  ccu_table_name :: string
  ccu_column_name :: string

record columns_row =
  col_table_name :: string
  col_column_name :: string
  col_data_type :: string
  col_ordinal_position :: nat

datatype statement =
    SelectTables
  | SelectPrimaryKeys string
  | SelectForeignKeys string
  | SelectColumns string
  | SelectSample string string

text \<open>
  \<open>stored db t c\<close> is the values of column \<open>c\<close> of table \<open>t\<close>, in scan order.
  \<open>raises db stmt\<close> is the exception \<^verbatim>\<open>cur.execute\<close> raises on \<open>stmt\<close>, if any (a lost
  connection, a missing relation or column, a refused permission).
  \<open>injected db sql\<close> is what the server answers to the text \<open>sql\<close> of a sampling
  statement built from a name that holds a double quote: the text is then not the
  statement the script means, and the server runs whatever it reads there.
\<close>

record database =
  is_tables :: "tables_row list"
  is_table_constraints :: "table_constraints_row list"
  is_key_column_usage :: "key_column_usage_row list"
  is_constraint_column_usage :: "constraint_column_usage_row list"
  is_columns :: "columns_row list"
  stored :: "string \<Rightarrow> string \<Rightarrow> pg_value list"
  injected :: "string \<Rightarrow> error + pg_value list"
  raises :: "statement \<Rightarrow> error option"

text \<open>\<^verbatim>\<open>cur.execute(stmt); cur.fetchall()\<close>: the exception, or the rows.\<close>

definition fetchall :: "database \<Rightarrow> statement \<Rightarrow> 'r list \<Rightarrow> error + 'r list" where
  "fetchall db stmt rows = (case raises db stmt of Some e \<Rightarrow> Inl e | None \<Rightarrow> Inr rows)"

text \<open>
  The four catalog statements of the script (lines 132-134, 22-32, 46-61, 89-97). Their
  table name is a bound parameter (\<^verbatim>\<open>%s\<close>).
\<close>

definition select_tables :: "database \<Rightarrow> string list" where
  "select_tables db =
     [tbl_table_name t. t \<leftarrow> is_tables db, tbl_table_schema t = ''public'']"

definition select_primary_keys :: "database \<Rightarrow> string \<Rightarrow> string list" where
  "select_primary_keys db table =
     [kcu_column_name kcu.
        tc \<leftarrow> is_table_constraints db,
        kcu \<leftarrow> is_key_column_usage db,
        tc_constraint_name tc = kcu_constraint_name kcu,
        tc_table_name tc = table,
        tc_constraint_type tc = ''PRIMARY KEY'']"

definition select_foreign_keys :: "database \<Rightarrow> string \<Rightarrow> (string \<times> string \<times> string) list" where
  "select_foreign_keys db table =
     [(kcu_column_name kcu, ccu_table_name ccu, ccu_column_name ccu).
        tc \<leftarrow> is_table_constraints db,
        kcu \<leftarrow> is_key_column_usage db,
        tc_constraint_name tc = kcu_constraint_name kcu,
        ccu \<leftarrow> is_constraint_column_usage db,
        ccu_constraint_name ccu = tc_constraint_name tc,
        tc_constraint_type tc = ''FOREIGN KEY'',
        kcu_table_name kcu = table]"

definition ordered_columns :: "database \<Rightarrow> string \<Rightarrow> columns_row list" where
  "ordered_columns db table =
     sort_key col_ordinal_position [c \<leftarrow> is_columns db. col_table_name c = table]"

definition select_columns :: "database \<Rightarrow> string \<Rightarrow> (string \<times> string) list" where
  "select_columns db table =
     map (\<lambda>c. (col_column_name c, col_data_type c)) (ordered_columns db table)"

text \<open>
  The sampling statement, lines 102-105. Its text is an f-string: the two names are put
  between double quotes as they are, and the whole text is one line.
\<close>

definition dquote :: char where
  "dquote = CHR 0x22"

definition sample_sql :: "string \<Rightarrow> string \<Rightarrow> string" where
  "sample_sql table column_name =
     ''SELECT '' @ [dquote] @ column_name @ [dquote] @
     '' FROM '' @ [dquote] @ table @ [dquote] @ '' '' @
     ''WHERE '' @ [dquote] @ column_name @ [dquote] @ '' IS NOT NULL LIMIT 5;''"

text \<open>
  What the server answers to that text. When neither name holds a double quote, each
  quoted name is one identifier and the text is the statement the script means: up to
  five non-null values of the column. Otherwise a quote inside a name ends the
  identifier early, and the answer is the server's to the text as it stands.
\<close>

definition select_sample :: "database \<Rightarrow> string \<Rightarrow> string \<Rightarrow> error + pg_value list" where
  "select_sample db table column_name =
     (if dquote \<in> set table \<or> dquote \<in> set column_name
      then injected db (sample_sql table column_name)
      else Inr (take 5 [v \<leftarrow> stored db table column_name. v \<noteq> PgNull]))"

text \<open>\<^verbatim>\<open>cur.execute(f'...'); cur.fetchall()\<close> for the sampling statement.\<close>

definition fetch_sample :: "database \<Rightarrow> string \<Rightarrow> string \<Rightarrow> error + pg_value list" where
  "fetch_sample db table column_name =
     (case raises db (SelectSample table column_name) of
        Some e \<Rightarrow> Inl e
      | None \<Rightarrow> select_sample db table column_name)"

subsection \<open>The output records\<close>

record foreign_key_ref =
  target_table :: string
  target_column :: string

record column_descriptor =
  c_name :: string
  c_type :: string
  c_primary_key :: bool
  c_foreign_keys :: "foreign_key_ref list"
  c_description :: string
  c_value_samples :: "string list"

record table_record =
  t_name :: string
  t_columns :: "column_descriptor list"
  t_description :: string
  t_table_str :: string

record database_record =
  d_name :: string
  d_tables :: "(string \<times> table_record) list"

type_synonym schema = "(string \<times> database_record) list"

subsection \<open>The constraint resolver\<close>

definition get_primary_keys :: "database \<Rightarrow> string \<Rightarrow> error + string set" where
  "get_primary_keys cur table =
     (case fetchall cur (SelectPrimaryKeys table) (select_primary_keys cur table) of
        Inl e \<Rightarrow> Inl e
      | Inr rows \<Rightarrow> Inr (set rows))"

text \<open>\<^verbatim>\<open>d.get(k, [])\<close> on an association list.\<close>

definition get_or_empty :: "('k \<times> 'v list) list \<Rightarrow> 'k \<Rightarrow> 'v list" where
  "get_or_empty d k = (case map_of d k of None \<Rightarrow> [] | Some vs \<Rightarrow> vs)"

text \<open>
  The loop of lines 64-70: \<^verbatim>\<open>fk_map.setdefault(col, []).append({...})\<close> for each row.
\<close>

fun fk_loop ::
  "(string \<times> foreign_key_ref list) list \<Rightarrow> (string \<times> string \<times> string) list
     \<Rightarrow> (string \<times> foreign_key_ref list) list" where
  "fk_loop fk_map [] = fk_map"
| "fk_loop fk_map ((col, ft, fc) # rows) =
     fk_loop
       (AList.update col
          (get_or_empty fk_map col @ [\<lparr>target_table = ft, target_column = fc\<rparr>]) fk_map)
       rows"

definition get_foreign_keys_by_column ::
  "database \<Rightarrow> string \<Rightarrow> error + (string \<times> foreign_key_ref list) list" where
  "get_foreign_keys_by_column cur table =
     (case fetchall cur (SelectForeignKeys table) (select_foreign_keys cur table) of
        Inl e \<Rightarrow> Inl e
      | Inr rows \<Rightarrow> Inr (fk_loop [] rows))"

subsection \<open>The column metadata builder\<close>

text \<open>The loop of lines 100-118; \<open>columns\<close> is the list built so far.\<close>

fun columns_loop ::
  "database \<Rightarrow> string \<Rightarrow> string set \<Rightarrow> (string \<times> foreign_key_ref list) list
     \<Rightarrow> column_descriptor list \<Rightarrow> (string \<times> string) list
     \<Rightarrow> error + column_descriptor list" where
  "columns_loop cur table primary_keys foreign_keys_map columns [] = Inr columns"
| "columns_loop cur table primary_keys foreign_keys_map columns ((column_name, data_type) # rest) =
     (case fetch_sample cur table column_name of
        Inl e \<Rightarrow> Inl e
      | Inr rows \<Rightarrow>
          (let samples = map py_str rows
           in columns_loop cur table primary_keys foreign_keys_map
                (columns @
                   [\<lparr>c_name = column_name,
                     c_type = upper data_type,
                     c_primary_key = (column_name \<in> primary_keys),
                     c_foreign_keys = get_or_empty foreign_keys_map column_name,
                     c_description = '''',
                     c_value_samples = samples\<rparr>])
                rest))"

definition get_columns :: "database \<Rightarrow> string \<Rightarrow> error + column_descriptor list" where
  "get_columns cur table =
     (case get_primary_keys cur table of
        Inl e \<Rightarrow> Inl e
      | Inr primary_keys \<Rightarrow>
          (case get_foreign_keys_by_column cur table of
             Inl e \<Rightarrow> Inl e
           | Inr foreign_keys_map \<Rightarrow>
               (case fetchall cur (SelectColumns table) (select_columns cur table) of
                  Inl e \<Rightarrow> Inl e
                | Inr rows \<Rightarrow> columns_loop cur table primary_keys foreign_keys_map [] rows)))"

subsection \<open>The table enumerator and the table assembler\<close>

definition get_tables :: "database \<Rightarrow> error + string list" where
  "get_tables cur =
     (case fetchall cur SelectTables (select_tables cur) of
        Inl e \<Rightarrow> Inl e
      | Inr rows \<Rightarrow> Inr (sort rows))"

definition fill_table_info :: "database \<Rightarrow> string \<Rightarrow> error + table_record" where
  "fill_table_info cur table_name =
     (case get_columns cur table_name of
        Inl e \<Rightarrow> Inl e
      | Inr columns \<Rightarrow>
          Inr \<lparr>t_name = table_name, t_columns = columns,
               t_description = '''', t_table_str = ''''\<rparr>)"

subsection \<open>The schema assembler\<close>

text \<open>
  A manifest entry: the two keys of a \<^verbatim>\<open>dev_tables.json\<close> object the script reads.
  Every entry is taken to have both.
\<close>

record db_info =
  db_id :: string
  table_names_original :: "string list"

text \<open>Line 174: \<^verbatim>\<open>{t.lower(): t for t in pg_tables}\<close>; a later name replaces an earlier one.\<close>

definition lower_dict :: "(string \<Rightarrow> string) \<Rightarrow> string list \<Rightarrow> (string \<times> string) list" where
  "lower_dict lower pg_tables = fold (\<lambda>t d. AList.update (lower t) t d) pg_tables []"

text \<open>
  Lines 185-195, the name a manifest table is stored under: \<open>None\<close> is the
  \<^verbatim>\<open>continue\<close> of line 195.
\<close>

definition resolve_table ::
  "(string \<Rightarrow> string) \<Rightarrow> string list \<Rightarrow> (string \<times> string) list \<Rightarrow> string \<Rightarrow> string option" where
  "resolve_table lower pg_tables pg_tables_lower table =
     (if table \<notin> set pg_tables then
        (let table_lower = lower table
         in if table_lower \<in> fst ` set pg_tables_lower
            then map_of pg_tables_lower table_lower
            else None)
      else Some table)"

text \<open>
  Line 197: \<^verbatim>\<open>schema[db_id]["tables"][table] = info\<close>. The key \<open>db_id\<close> is always
  present there (line 182 has just stored it).
\<close>

definition store_table :: "string \<Rightarrow> string \<Rightarrow> table_record \<Rightarrow> schema \<Rightarrow> schema" where
  "store_table dbid table info schema =
     AList.map_entry dbid (\<lambda>d. d\<lparr>d_tables := AList.update table info (d_tables d)\<rparr>) schema"

text \<open>The inner loop, lines 184-197.\<close>

fun tables_loop ::
  "(string \<Rightarrow> string) \<Rightarrow> database \<Rightarrow> string list \<Rightarrow> (string \<times> string) list \<Rightarrow> string
     \<Rightarrow> schema \<Rightarrow> string list \<Rightarrow> error + schema" where
  "tables_loop lower cur pg_tables pg_tables_lower dbid schema [] = Inr schema"
| "tables_loop lower cur pg_tables pg_tables_lower dbid schema (table # rest) =
     (case resolve_table lower pg_tables pg_tables_lower table of
        None \<Rightarrow> tables_loop lower cur pg_tables pg_tables_lower dbid schema rest
      | Some resolved \<Rightarrow>
          (case fill_table_info cur resolved of
             Inl e \<Rightarrow> Inl e
           | Inr info \<Rightarrow>
               tables_loop lower cur pg_tables pg_tables_lower dbid
                 (store_table dbid resolved info schema) rest))"

text \<open>The outer loop, lines 178-197.\<close>

fun db_loop ::
  "(string \<Rightarrow> string) \<Rightarrow> database \<Rightarrow> string list \<Rightarrow> (string \<times> string) list \<Rightarrow> schema
     \<Rightarrow> db_info list \<Rightarrow> error + schema" where
  "db_loop lower cur pg_tables pg_tables_lower schema [] = Inr schema"
| "db_loop lower cur pg_tables pg_tables_lower schema (info # rest) =
     (case tables_loop lower cur pg_tables pg_tables_lower (db_id info)
             (AList.update (db_id info) \<lparr>d_name = db_id info, d_tables = []\<rparr> schema)
             (table_names_original info) of
        Inl e \<Rightarrow> Inl e
      | Inr schema' \<Rightarrow> db_loop lower cur pg_tables pg_tables_lower schema' rest)"

text \<open>
  What happens to the connection: \<open>Connect\<close> when \<^verbatim>\<open>psycopg2.connect\<close> returns
  (line 170), \<open>Close\<close> at \<^verbatim>\<open>conn.close()\<close> (line 199). The function returns the
  events next to its result or its exception. \<open>connect\<close> stands for \<^verbatim>\<open>psycopg2.connect\<close>: the
  database a connection string reaches, or the exception.
\<close>

datatype event = Connect | Close

type_synonym connector = "string option \<Rightarrow> error + database"

definition get_bird_pg_schema_dict ::
  "(string \<Rightarrow> string) \<Rightarrow> connector \<Rightarrow> db_info list \<Rightarrow> string option
     \<Rightarrow> event list \<times> (error + schema)" where
  "get_bird_pg_schema_dict lower connect dev_tables_json pg_conn_str =
     (case connect pg_conn_str of
        Inl e \<Rightarrow> ([], Inl e)
      | Inr cur \<Rightarrow>
          (let opened = [Connect]
           in case get_tables cur of
                Inl e \<Rightarrow> (opened, Inl e)
              | Inr pg_tables \<Rightarrow>
                  (let pg_tables_lower = lower_dict lower pg_tables
                   in case db_loop lower cur pg_tables pg_tables_lower [] dev_tables_json of
                        Inl e \<Rightarrow> (opened, Inl e)
                      | Inr schema \<Rightarrow> (opened @ [Close], Inr schema))))"

subsection \<open>The command-line entry point\<close>

text \<open>
  Lines 234-243. \<open>args_pg_conn_str\<close> is the value of the flag (\<open>None\<close>, its default,
  when it is not given), \<open>getenv\<close> the value of \<^verbatim>\<open>POSTGRES_CONNECTION_STRING\<close>
  (\<open>None\<close> when unset). The result is the local variable \<^verbatim>\<open>pg_conn_str\<close> after
  the block: \<open>None\<close> when no assignment has run, \<open>Some v\<close> when it holds \<open>v\<close>.
\<close>

definition main_pg_conn_str ::
  "string option \<Rightarrow> string option \<Rightarrow> error + string option option" where
  "main_pg_conn_str args_pg_conn_str getenv =
     (if args_pg_conn_str = None then
        (let pg_conn_str = getenv
         in if pg_conn_str = None \<or> pg_conn_str = Some ''''
            then Inl RuntimeError
            else Inr (Some args_pg_conn_str))
      else Inr None)"

text \<open>
  Lines 234-245: the block above, then the call of line 245, which reads
  \<^verbatim>\<open>pg_conn_str\<close>. The manifest is the parsed input file.
\<close>

definition main ::
  "(string \<Rightarrow> string) \<Rightarrow> connector \<Rightarrow> db_info list \<Rightarrow> string option \<Rightarrow> string option
     \<Rightarrow> event list \<times> (error + schema)" where
  "main lower connect dev_tables_json args_pg_conn_str getenv =
     (case main_pg_conn_str args_pg_conn_str getenv of
        Inl e \<Rightarrow> ([], Inl e)
      | Inr None \<Rightarrow> ([], Inl NameError)
      | Inr (Some pg_conn_str) \<Rightarrow>
          get_bird_pg_schema_dict lower connect dev_tables_json pg_conn_str)"

subsection \<open>The key columns of a table\<close>

text \<open>
  The columns a primary-key constraint of a table covers: the \<open>key_column_usage\<close>
  rows of the table itself under a constraint that \<open>table_constraints\<close> lists as
  \<^verbatim>\<open>PRIMARY KEY\<close> for that table. No function of the script computes this list; it is
  what the specification calls the table's primary-key constraint set, to compare the
  query of \<open>get_primary_keys\<close> with.
\<close>

definition table_primary_key_columns :: "database \<Rightarrow> string \<Rightarrow> string list" where
  "table_primary_key_columns db table =
     [kcu_column_name kcu.
        tc \<leftarrow> is_table_constraints db,
        kcu \<leftarrow> is_key_column_usage db,
        tc_constraint_name tc = kcu_constraint_name kcu,
        tc_table_name tc = table,
        kcu_table_name kcu = table,
        tc_constraint_type tc = ''PRIMARY KEY'']"

subsection \<open>A small database to run the script on\<close>

text \<open>
  Two public tables, \<open>Customers\<close> and \<open>orders\<close>, and a system table outside the
  public schema. \<open>orders.customer_id\<close> references \<open>Customers.id\<close>. The catalog
  rows are not stored in catalog order.
\<close>

definition shop_db :: database where
  "shop_db =
     \<lparr>is_tables =
        [\<lparr>tbl_table_schema = ''public'', tbl_table_name = ''orders''\<rparr>,
         \<lparr>tbl_table_schema = ''public'', tbl_table_name = ''Customers''\<rparr>,
         \<lparr>tbl_table_schema = ''pg_catalog'', tbl_table_name = ''pg_class''\<rparr>],
      is_table_constraints =
        [\<lparr>tc_constraint_name = ''customers_pkey'', tc_table_name = ''Customers'', tc_constraint_type = ''PRIMARY KEY''\<rparr>,
         \<lparr>tc_constraint_name = ''orders_pkey'', tc_table_name = ''orders'', tc_constraint_type = ''PRIMARY KEY''\<rparr>,
         \<lparr>tc_constraint_name = ''orders_customer_fkey'', tc_table_name = ''orders'', tc_constraint_type = ''FOREIGN KEY''\<rparr>],
      is_key_column_usage =
        [\<lparr>kcu_constraint_name = ''customers_pkey'', kcu_table_name = ''Customers'', kcu_column_name = ''id''\<rparr>,
         \<lparr>kcu_constraint_name = ''orders_pkey'', kcu_table_name = ''orders'', kcu_column_name = ''id''\<rparr>,
         \<lparr>kcu_constraint_name = ''orders_customer_fkey'', kcu_table_name = ''orders'', kcu_column_name = ''customer_id''\<rparr>],
      is_constraint_column_usage =
        [\<lparr>ccu_constraint_name = ''customers_pkey'', ccu_table_name = ''Customers'', ccu_column_name = ''id''\<rparr>,
         \<lparr>ccu_constraint_name = ''orders_pkey'', ccu_table_name = ''orders'', ccu_column_name = ''id''\<rparr>,
         \<lparr>ccu_constraint_name = ''orders_customer_fkey'', ccu_table_name = ''Customers'', ccu_column_name = ''id''\<rparr>],
      is_columns =
        [\<lparr>col_table_name = ''Customers'', col_column_name = ''id'', col_data_type = ''integer'', col_ordinal_position = 1\<rparr>,
         \<lparr>col_table_name = ''orders'', col_column_name = ''note'', col_data_type = ''text'', col_ordinal_position = 3\<rparr>,
         \<lparr>col_table_name = ''Customers'', col_column_name = ''name'', col_data_type = ''text'', col_ordinal_position = 2\<rparr>,
         \<lparr>col_table_name = ''orders'', col_column_name = ''customer_id'', col_data_type = ''integer'', col_ordinal_position = 2\<rparr>,
         \<lparr>col_table_name = ''orders'', col_column_name = ''id'', col_data_type = ''integer'', col_ordinal_position = 1\<rparr>],
      stored = (\<lambda>t c.
         if t = ''Customers'' \<and> c = ''id'' then map PgInt [1, 2, 3, 4, 5, 6, 7]
         else if t = ''Customers'' \<and> c = ''name'' then [PgText ''Ann'', PgNull, PgText ''Bob'']
         else if t = ''orders'' \<and> c = ''note'' then [PgNull, PgNull]
         else []),
      injected = (\<lambda>_. Inl QueryFailed),
      raises = (\<lambda>_. None)\<rparr>"

definition shop_connect :: connector where
  "shop_connect s = (if s = Some ''host=shop'' then Inr shop_db else Inl ConnectionFailed)"

definition shop_manifest :: "db_info list" where
  "shop_manifest =
     [\<lparr>db_id = ''shop'', table_names_original = [''customers'', ''ghost_table'', ''orders'']\<rparr>]"

text \<open>
  The same database with a sampling query that fails; a database with two public tables
  whose names differ only by case; a manifest that lists one database twice.
\<close>

definition broken_db :: database where
  "broken_db =
     shop_db\<lparr>raises := (\<lambda>stmt. if stmt = SelectSample ''orders'' ''note''
                                then Some QueryFailed else None)\<rparr>"

definition broken_connect :: connector where
  "broken_connect s = (if s = Some ''host=shop'' then Inr broken_db else Inl ConnectionFailed)"

definition twin_db :: database where
  "twin_db =
     \<lparr>is_tables =
        [\<lparr>tbl_table_schema = ''public'', tbl_table_name = ''customers''\<rparr>,
         \<lparr>tbl_table_schema = ''public'', tbl_table_name = ''Customers''\<rparr>],
      is_table_constraints = [],
      is_key_column_usage = [],
      is_constraint_column_usage = [],
      is_columns =
        [\<lparr>col_table_name = ''customers'', col_column_name = ''id'', col_data_type = ''integer'', col_ordinal_position = 1\<rparr>,
         \<lparr>col_table_name = ''Customers'', col_column_name = ''key'', col_data_type = ''text'', col_ordinal_position = 1\<rparr>],
      stored = (\<lambda>t c. []),
      injected = (\<lambda>_. Inl QueryFailed),
      raises = (\<lambda>_. None)\<rparr>"

definition twin_connect :: connector where
  "twin_connect s = (if s = Some ''host=twin'' then Inr twin_db else Inl ConnectionFailed)"

definition twin_manifest :: "db_info list" where
  "twin_manifest = [\<lparr>db_id = ''shop'', table_names_original = [''CUSTOMERS'']\<rparr>]"

definition dup_manifest :: "db_info list" where
  "dup_manifest =
     [\<lparr>db_id = ''shop'', table_names_original = [''Customers'']\<rparr>,
      \<lparr>db_id = ''shop'', table_names_original = [''orders'']\<rparr>]"

text \<open>
  A database in which the foreign key of \<open>y\<close> has the name of the primary key of
  \<open>x\<close> (Postgres keeps constraint names apart per table only).
\<close>

definition collide_db :: database where
  "collide_db =
     \<lparr>is_tables =
        [\<lparr>tbl_table_schema = ''public'', tbl_table_name = ''x''\<rparr>,
         \<lparr>tbl_table_schema = ''public'', tbl_table_name = ''y''\<rparr>],
      is_table_constraints =
        [\<lparr>tc_constraint_name = ''x_pkey'', tc_table_name = ''x'', tc_constraint_type = ''PRIMARY KEY''\<rparr>,
         \<lparr>tc_constraint_name = ''x_pkey'', tc_table_name = ''y'', tc_constraint_type = ''FOREIGN KEY''\<rparr>],
      is_key_column_usage =
        [\<lparr>kcu_constraint_name = ''x_pkey'', kcu_table_name = ''x'', kcu_column_name = ''id''\<rparr>,
         \<lparr>kcu_constraint_name = ''x_pkey'', kcu_table_name = ''y'', kcu_column_name = ''val''\<rparr>],
      is_constraint_column_usage =
        [\<lparr>ccu_constraint_name = ''x_pkey'', ccu_table_name = ''x'', ccu_column_name = ''id''\<rparr>],
      is_columns =
        [\<lparr>col_table_name = ''x'', col_column_name = ''id'', col_data_type = ''integer'', col_ordinal_position = 1\<rparr>,
         \<lparr>col_table_name = ''x'', col_column_name = ''val'', col_data_type = ''integer'', col_ordinal_position = 2\<rparr>,
         \<lparr>col_table_name = ''y'', col_column_name = ''val'', col_data_type = ''integer'', col_ordinal_position = 1\<rparr>],
      stored = (\<lambda>t c. []),
      injected = (\<lambda>_. Inl QueryFailed),
      raises = (\<lambda>_. None)\<rparr>"

text \<open>
  A table \<open>t\<close> with a column \<open>c\<close> of seven values, one of them \<^verbatim>\<open>NULL\<close>, and a
  second column whose name is \<open>weird_column\<close>. The sampling statement for the second
  column reads \<^verbatim>\<open>SELECT "c" FROM "t" --\<close> followed by a comment to the end of the line,
  so the server answers with the whole of column \<open>c\<close>.
\<close>

definition weird_column :: string where
  "weird_column = ''c'' @ [dquote] @ '' FROM '' @ [dquote] @ ''t'' @ [dquote] @ '' --''"

definition quote_db :: database where
  "quote_db =
     \<lparr>is_tables = [\<lparr>tbl_table_schema = ''public'', tbl_table_name = ''t''\<rparr>],
      is_table_constraints = [],
      is_key_column_usage = [],
      is_constraint_column_usage = [],
      is_columns =
        [\<lparr>col_table_name = ''t'', col_column_name = ''c'', col_data_type = ''text'', col_ordinal_position = 1\<rparr>,
         \<lparr>col_table_name = ''t'', col_column_name = weird_column, col_data_type = ''text'', col_ordinal_position = 2\<rparr>],
      stored = (\<lambda>t c.
         if t = ''t'' \<and> c = ''c''
         then [PgText ''a'', PgText ''b'', PgNull, PgText ''d'', PgText ''e'', PgText ''f'', PgText ''g'']
         else []),
      injected = (\<lambda>sql.
         if sql = sample_sql ''t'' weird_column
         then Inr [PgText ''a'', PgText ''b'', PgNull, PgText ''d'', PgText ''e'', PgText ''f'', PgText ''g'']
         else Inl QueryFailed),
      raises = (\<lambda>_. None)\<rparr>"

text \<open>
  A manifest that lists one database twice, the first time with a table that does not
  exist and one that does.
\<close>

definition ghost_manifest :: "db_info list" where
  "ghost_manifest =
     [\<lparr>db_id = ''shop'', table_names_original = [''ghost_table'', ''Customers'']\<rparr>,
      \<lparr>db_id = ''shop'', table_names_original = [''orders'']\<rparr>]"


section \<open>Properties\<close>

subsection \<open>Queries and the column builder\<close>

lemma fetchall_Inr: "fetchall db stmt rows = Inr rs \<Longrightarrow> rs = rows"
  by (simp add: fetchall_def split: option.splits)

lemma get_or_empty_update:
  "get_or_empty (AList.update k v d) c = (if c = k then v else get_or_empty d c)"
  by (simp add: get_or_empty_def update_conv')

lemma get_or_empty_fk_loop:
  "get_or_empty (fk_loop fk_map rows) c =
     get_or_empty fk_map c @
       [\<lparr>target_table = ft, target_column = fc\<rparr>. (col, ft, fc) \<leftarrow> rows, col = c]"
proof (induction rows arbitrary: fk_map)
  case Nil
  show ?case by simp
next
  case (Cons row rows)
  obtain col ft fc where row: "row = (col, ft, fc)"
    by (cases row) auto
  show ?case
    by (simp add: row Cons.IH get_or_empty_update)
qed

lemma get_or_empty_Nil: "get_or_empty [] c = []"
  by (simp add: get_or_empty_def)

lemma columns_loop_Inr:
  "columns_loop cur table pks fks columns rows = Inr cols \<Longrightarrow>
   cols = columns @
     map (\<lambda>(column_name, data_type).
            \<lparr>c_name = column_name, c_type = upper data_type,
             c_primary_key = (column_name \<in> pks),
             c_foreign_keys = get_or_empty fks column_name,
             c_description = '''',
             c_value_samples =
               map py_str (case fetch_sample cur table column_name of
                             Inl e \<Rightarrow> [] | Inr rs \<Rightarrow> rs)\<rparr>) rows"
proof (induction rows arbitrary: columns)
  case Nil
  then show ?case by simp
next
  case (Cons row rows)
  obtain column_name data_type where row: "row = (column_name, data_type)"
    by (cases row) auto
  from Cons.prems obtain rs where
    rs: "fetch_sample cur table column_name = Inr rs"
    by (auto simp: row split: sum.splits)
  with Cons.prems show ?case
    by (auto simp: row dest!: Cons.IH)
qed

lemma columns_loop_fetched:
  "columns_loop cur table pks fks columns rows = Inr cols \<Longrightarrow> row \<in> set rows \<Longrightarrow>
   \<exists>rs. fetch_sample cur table (fst row) = Inr rs"
proof (induction rows arbitrary: columns)
  case Nil
  then show ?case by simp
next
  case (Cons r rows)
  obtain column_name data_type where r: "r = (column_name, data_type)"
    by (cases r) auto
  from Cons.prems(1) obtain rs where
    rs: "fetch_sample cur table column_name = Inr rs"
    by (auto simp: r split: sum.splits)
  show ?case
  proof (cases "row = r")
    case True
    with rs show ?thesis by (simp add: r)
  next
    case False
    with Cons.prems(2) have "row \<in> set rows" by simp
    with Cons.prems(1) rs show ?thesis
      by (auto simp: r dest!: Cons.IH)
  qed
qed

lemma get_columns_Inr:
  assumes "get_columns cur table = Inr cols"
  shows "cols =
     map (\<lambda>(column_name, data_type).
            \<lparr>c_name = column_name, c_type = upper data_type,
             c_primary_key = (column_name \<in> set (select_primary_keys cur table)),
             c_foreign_keys =
               [\<lparr>target_table = ft, target_column = fc\<rparr>.
                  (col, ft, fc) \<leftarrow> select_foreign_keys cur table, col = column_name],
             c_description = '''',
             c_value_samples =
               map py_str (case fetch_sample cur table column_name of
                             Inl e \<Rightarrow> [] | Inr rs \<Rightarrow> rs)\<rparr>)
       (select_columns cur table)"
proof -
  from assms obtain pks fks rows where
    pks: "get_primary_keys cur table = Inr pks" and
    fks: "get_foreign_keys_by_column cur table = Inr fks" and
    rows: "fetchall cur (SelectColumns table) (select_columns cur table) = Inr rows" and
    loop: "columns_loop cur table pks fks [] rows = Inr cols"
    by (auto simp: get_columns_def split: sum.splits)
  have 1: "pks = set (select_primary_keys cur table)"
    using pks by (auto simp: get_primary_keys_def split: sum.splits dest: fetchall_Inr)
  have 2: "fks = fk_loop [] (select_foreign_keys cur table)"
    using fks by (auto simp: get_foreign_keys_by_column_def split: sum.splits dest: fetchall_Inr)
  have 3: "rows = select_columns cur table"
    using rows by (rule fetchall_Inr)
  show ?thesis
    using columns_loop_Inr [OF loop]
    by (simp add: 1 2 3 get_or_empty_fk_loop get_or_empty_Nil)
qed

lemma get_columns_fetched:
  assumes cols: "get_columns cur table = Inr cols" and c: "c \<in> set cols"
  shows "\<exists>rs. fetch_sample cur table (c_name c) = Inr rs \<and> c_value_samples c = map py_str rs"
proof -
  from cols obtain pks fks rows where
    loop: "columns_loop cur table pks fks [] rows = Inr cols"
    by (auto simp: get_columns_def split: sum.splits)
  from columns_loop_Inr [OF loop] c obtain row where
    row: "row \<in> set rows" and
    name: "c_name c = fst row" and
    samples: "c_value_samples c =
      map py_str (case fetch_sample cur table (fst row) of Inl e \<Rightarrow> [] | Inr rs \<Rightarrow> rs)"
    by (auto simp: case_prod_unfold)
  from columns_loop_fetched [OF loop row] obtain rs where
    "fetch_sample cur table (fst row) = Inr rs"
    by blast
  with name samples show ?thesis by simp
qed

lemma get_columns_names:
  "get_columns cur table = Inr cols \<Longrightarrow> map c_name cols = map fst (select_columns cur table)"
  by (drule get_columns_Inr) (simp add: case_prod_unfold comp_def)

lemma fill_table_info_Inr:
  "fill_table_info cur table = Inr i \<Longrightarrow> t_name i = table \<and> get_columns cur table = Inr (t_columns i)"
  by (auto simp: fill_table_info_def split: sum.splits)

lemma mem_select_primary_keys:
  "x \<in> set (select_primary_keys cur table) \<longleftrightarrow>
     (\<exists>tc \<in> set (is_table_constraints cur). \<exists>kcu \<in> set (is_key_column_usage cur).
         tc_constraint_name tc = kcu_constraint_name kcu \<and> tc_table_name tc = table \<and>
         tc_constraint_type tc = ''PRIMARY KEY'' \<and> x = kcu_column_name kcu)"
  unfolding select_primary_keys_def
  by (simp split: if_splits) blast

lemma fk_refs_member:
  "(col, ft, fc) \<in> set rows \<Longrightarrow>
   \<lparr>target_table = ft, target_column = fc\<rparr> \<in>
     set [\<lparr>target_table = ft', target_column = fc'\<rparr>. (col', ft', fc') \<leftarrow> rows, col' = col]"
  by (induction rows) auto

lemma fk_refs_empty:
  "c \<notin> fst ` set rows \<Longrightarrow>
   [\<lparr>target_table = ft', target_column = fc'\<rparr>. (col', ft', fc') \<leftarrow> rows, col' = c] = []"
  by (induction rows) auto

lemma fetch_sample_plain:
  "fetch_sample cur table c = Inr rs \<Longrightarrow> dquote \<notin> set table \<Longrightarrow> dquote \<notin> set c \<Longrightarrow>
   rs = take 5 [v \<leftarrow> stored cur table c. v \<noteq> PgNull]"
  by (auto simp: fetch_sample_def select_sample_def split: option.splits)

lemma take_filter_all_null:
  "\<forall>v \<in> set vs. v = PgNull \<Longrightarrow> take 5 [v \<leftarrow> vs. v \<noteq> PgNull] = []"
  by (simp add: filter_empty_conv)

text \<open>
  On names without a double quote the samples are as the sampling statement means them:
  at most five, each the rendering of a stored value that is not \<^verbatim>\<open>NULL\<close>, and none
  when the column stores no other value.
\<close>

lemma value_samples_plain_names:
  assumes cols: "get_columns cur table = Inr cols"
    and c: "c \<in> set cols"
    and plain: "dquote \<notin> set table" "dquote \<notin> set (c_name c)"
  shows "length (c_value_samples c) \<le> 5 \<and>
     c_value_samples c = map py_str (take 5 [v \<leftarrow> stored cur table (c_name c). v \<noteq> PgNull]) \<and>
     ((\<forall>v \<in> set (stored cur table (c_name c)). v = PgNull) \<longrightarrow> c_value_samples c = [])"
proof -
  from get_columns_fetched [OF cols c] obtain rs where
    rs: "fetch_sample cur table (c_name c) = Inr rs" and
    samples: "c_value_samples c = map py_str rs"
    by blast
  from rs plain have eq: "rs = take 5 [v \<leftarrow> stored cur table (c_name c). v \<noteq> PgNull]"
    by (rule fetch_sample_plain)
  have len: "length (c_value_samples c) \<le> 5"
    by (simp add: samples eq)
  have emp: "c_value_samples c = []" if "\<forall>v \<in> set (stored cur table (c_name c)). v = PgNull"
    using take_filter_all_null [OF that] by (simp add: samples eq)
  from len emp samples eq show ?thesis by blast
qed

text \<open>
  The primary-key flag of a descriptor is membership in the rows of the script's own
  query, which joins on the constraint name alone. Where every key-column row the
  query joins to a primary-key constraint of the table is a row of that table, those
  rows are the table's own key columns.
\<close>

lemma primary_key_flag_is_query_membership:
  assumes "get_columns cur table = Inr cols" and "c \<in> set cols"
  shows "c_primary_key c = (c_name c \<in> set (select_primary_keys cur table))"
  using get_columns_Inr [OF assms(1)] assms(2) by auto

lemma mem_table_primary_key_columns:
  "x \<in> set (table_primary_key_columns cur table) \<longleftrightarrow>
     (\<exists>tc \<in> set (is_table_constraints cur). \<exists>kcu \<in> set (is_key_column_usage cur).
         tc_constraint_name tc = kcu_constraint_name kcu \<and> tc_table_name tc = table \<and>
         kcu_table_name kcu = table \<and>
         tc_constraint_type tc = ''PRIMARY KEY'' \<and> x = kcu_column_name kcu)"
  unfolding table_primary_key_columns_def
  by (simp split: if_splits) blast

lemma select_primary_keys_own_table:
  assumes "\<forall>tc \<in> set (is_table_constraints cur). \<forall>kcu \<in> set (is_key_column_usage cur).
       tc_constraint_name tc = kcu_constraint_name kcu \<and> tc_table_name tc = table \<and>
       tc_constraint_type tc = ''PRIMARY KEY'' \<longrightarrow> kcu_table_name kcu = table"
  shows "set (select_primary_keys cur table) = set (table_primary_key_columns cur table)"
proof (rule set_eqI)
  fix x
  show "x \<in> set (select_primary_keys cur table) \<longleftrightarrow>
        x \<in> set (table_primary_key_columns cur table)"
    unfolding mem_select_primary_keys mem_table_primary_key_columns
    using assms by blast
qed

subsection \<open>Name resolution and the two loops of the assembler\<close>

lemma map_of_fold_lower:
  "map_of (fold (\<lambda>t d. AList.update (lower t) t d) ts d) k =
     (case [t \<leftarrow> ts. lower t = k] of [] \<Rightarrow> map_of d k | x # xs \<Rightarrow> Some (last (x # xs)))"
proof (induction ts arbitrary: d)
  case Nil
  show ?case by simp
next
  case (Cons t ts)
  show ?case
    by (simp add: Cons.IH update_conv' split: list.splits)
qed

lemma map_of_lower_dict:
  "map_of (lower_dict lower ts) k =
     (case [t \<leftarrow> ts. lower t = k] of [] \<Rightarrow> None | x # xs \<Rightarrow> Some (last (x # xs)))"
  by (simp add: lower_dict_def map_of_fold_lower split: list.splits)

lemma keys_lower_dict: "fst ` set (lower_dict lower ts) = lower ` set ts"
proof -
  have "fst ` set (fold (\<lambda>t d. AList.update (lower t) t d) ts d) = lower ` set ts \<union> fst ` set d" for d
    by (induction ts arbitrary: d) (auto simp: dom_update)
  then show ?thesis by (simp add: lower_dict_def)
qed

lemma map_of_lower_dict_Some:
  assumes "map_of (lower_dict lower ts) k = Some r"
  shows "r \<in> set ts \<and> lower r = k"
proof -
  from assms obtain x xs where f: "[t \<leftarrow> ts. lower t = k] = x # xs" and r: "r = last (x # xs)"
    by (auto simp: map_of_lower_dict split: list.splits)
  have "last (x # xs) \<in> set (x # xs)" by (rule last_in_set) simp
  then have "r \<in> set [t \<leftarrow> ts. lower t = k]" by (simp only: f r)
  then show ?thesis by simp
qed

lemma resolve_table_exact: "table \<in> set pg_tables \<Longrightarrow> resolve_table lower pg_tables d table = Some table"
  by (simp add: resolve_table_def)

lemma resolve_table_fallback:
  "table \<notin> set pg_tables \<Longrightarrow> resolve_table lower pg_tables d table = map_of d (lower table)"
  by (auto simp: resolve_table_def Let_def map_of_eq_None_iff [symmetric])


lemma map_of_store_table:
  "map_of schema dbid = Some d \<Longrightarrow>
   map_of (store_table dbid table info schema) =
     (map_of schema)(dbid \<mapsto> d\<lparr>d_tables := AList.update table info (d_tables d)\<rparr>)"
  by (simp add: store_table_def map_of_map_entry)

lemma tables_loop_Inr:
  "tables_loop lower cur pt ptl dbid schema tabs = Inr schema' \<Longrightarrow> map_of schema dbid = Some d \<Longrightarrow>
   \<exists>d'. map_of schema' = (map_of schema)(dbid \<mapsto> d') \<and> d_name d' = d_name d \<and>
     (\<forall>k. (\<exists>T \<in> set tabs. resolve_table lower pt ptl T = Some k) \<longrightarrow>
         (\<exists>i. fill_table_info cur k = Inr i \<and> map_of (d_tables d') k = Some i)) \<and>
     (\<forall>k. \<not> (\<exists>T \<in> set tabs. resolve_table lower pt ptl T = Some k) \<longrightarrow>
         map_of (d_tables d') k = map_of (d_tables d) k)"
proof (induction tabs arbitrary: schema d)
  case Nil
  then have "schema' = schema" by simp
  with Nil show ?case
    by (intro exI [of _ d]) (auto simp: fun_upd_idem)
next
  case (Cons T tabs)
  show ?case
  proof (cases "resolve_table lower pt ptl T")
    case None
    with Cons.prems have "tables_loop lower cur pt ptl dbid schema tabs = Inr schema'"
      by simp
    from Cons.IH [OF this Cons.prems(2)] obtain d' where
      d': "map_of schema' = (map_of schema)(dbid \<mapsto> d')" "d_name d' = d_name d"
        "\<forall>k. (\<exists>T \<in> set tabs. resolve_table lower pt ptl T = Some k) \<longrightarrow>
           (\<exists>i. fill_table_info cur k = Inr i \<and> map_of (d_tables d') k = Some i)"
        "\<forall>k. \<not> (\<exists>T \<in> set tabs. resolve_table lower pt ptl T = Some k) \<longrightarrow>
           map_of (d_tables d') k = map_of (d_tables d) k"
      by blast
    show ?thesis
      using d' None by (intro exI [of _ d']) auto
  next
    case (Some r)
    with Cons.prems obtain info where
      info: "fill_table_info cur r = Inr info" and
      loop: "tables_loop lower cur pt ptl dbid (store_table dbid r info schema) tabs = Inr schema'"
      by (auto split: sum.splits)
    let ?d1 = "d\<lparr>d_tables := AList.update r info (d_tables d)\<rparr>"
    have m1: "map_of (store_table dbid r info schema) = (map_of schema)(dbid \<mapsto> ?d1)"
      using Cons.prems(2) by (rule map_of_store_table)
    then have "map_of (store_table dbid r info schema) dbid = Some ?d1"
      by simp
    from Cons.IH [OF loop this] obtain d' where
      d': "map_of schema' = (map_of (store_table dbid r info schema))(dbid \<mapsto> d')"
        "d_name d' = d_name ?d1"
        "\<forall>k. (\<exists>T \<in> set tabs. resolve_table lower pt ptl T = Some k) \<longrightarrow>
           (\<exists>i. fill_table_info cur k = Inr i \<and> map_of (d_tables d') k = Some i)"
        "\<forall>k. \<not> (\<exists>T \<in> set tabs. resolve_table lower pt ptl T = Some k) \<longrightarrow>
           map_of (d_tables d') k = map_of (d_tables ?d1) k"
      by blast
    have a: "map_of schema' = (map_of schema)(dbid \<mapsto> d')"
      using d'(1) by (simp add: m1)
    have b: "d_name d' = d_name d"
      using d'(2) by simp
    have c: "\<exists>i. fill_table_info cur k = Inr i \<and> map_of (d_tables d') k = Some i"
      if "\<exists>T \<in> set (T # tabs). resolve_table lower pt ptl T = Some k" for k
    proof (cases "\<exists>T \<in> set tabs. resolve_table lower pt ptl T = Some k")
      case True
      with d'(3) show ?thesis by blast
    next
      case False
      with that Some have "k = r" by auto
      moreover from False d'(4) have "map_of (d_tables d') k = map_of (d_tables ?d1) k"
        by blast
      ultimately show ?thesis
        using info by (simp add: update_conv')
    qed
    have e: "map_of (d_tables d') k = map_of (d_tables d) k"
      if "\<not> (\<exists>T \<in> set (T # tabs). resolve_table lower pt ptl T = Some k)" for k
    proof -
      from that Some have "k \<noteq> r" and "\<not> (\<exists>T \<in> set tabs. resolve_table lower pt ptl T = Some k)"
        by auto
      with d'(4) show ?thesis
        by (simp add: update_conv')
    qed
    show ?thesis
      using a b c e by (intro exI [of _ d']) blast
  qed
qed

lemma tables_loop_other:
  "tables_loop lower cur pt ptl dbid schema tabs = Inr schema' \<Longrightarrow> k \<noteq> dbid \<Longrightarrow>
   map_of schema' k = map_of schema k"
proof (induction tabs arbitrary: schema)
  case Nil
  then show ?case by simp
next
  case (Cons T tabs)
  then show ?case
    by (auto simp: store_table_def map_of_map_entry split: option.splits sum.splits)
qed

lemma db_loop_other:
  "db_loop lower cur pt ptl schema man = Inr schema' \<Longrightarrow> k \<notin> db_id ` set man \<Longrightarrow>
   map_of schema' k = map_of schema k"
proof (induction man arbitrary: schema)
  case Nil
  then show ?case by simp
next
  case (Cons e man)
  from Cons.prems obtain s1 where
    s1: "tables_loop lower cur pt ptl (db_id e)
           (AList.update (db_id e) \<lparr>d_name = db_id e, d_tables = []\<rparr> schema)
           (table_names_original e) = Inr s1" and
    rest: "db_loop lower cur pt ptl s1 man = Inr schema'"
    by (auto split: sum.splits)
  from Cons.prems(2) have k: "k \<noteq> db_id e" "k \<notin> db_id ` set man" by auto
  have "map_of schema' k = map_of s1 k"
    using rest k(2) by (rule Cons.IH)
  also have "\<dots> = map_of (AList.update (db_id e) \<lparr>d_name = db_id e, d_tables = []\<rparr> schema) k"
    using s1 k(1) by (rule tables_loop_other)
  also have "\<dots> = map_of schema k"
    using k(1) by (simp add: update_conv')
  finally show ?case .
qed

lemma db_loop_append:
  "db_loop lower cur pt ptl schema (xs @ ys) =
     (case db_loop lower cur pt ptl schema xs of Inl e \<Rightarrow> Inl e | Inr s \<Rightarrow> db_loop lower cur pt ptl s ys)"
  by (induction xs arbitrary: schema) (auto split: sum.splits)

lemma db_loop_last:
  assumes run: "db_loop lower cur pt ptl schema (pre @ e # post) = Inr schema'"
    and last: "db_id e \<notin> db_id ` set post"
  shows "\<exists>d. map_of schema' (db_id e) = Some d \<and> d_name d = db_id e \<and>
     (\<forall>k. (\<exists>T \<in> set (table_names_original e). resolve_table lower pt ptl T = Some k) \<longrightarrow>
         (\<exists>i. fill_table_info cur k = Inr i \<and> map_of (d_tables d) k = Some i)) \<and>
     (\<forall>k. \<not> (\<exists>T \<in> set (table_names_original e). resolve_table lower pt ptl T = Some k) \<longrightarrow>
         map_of (d_tables d) k = None)"
proof -
  from run obtain s0 where
    s0: "db_loop lower cur pt ptl schema pre = Inr s0" and
    run1: "db_loop lower cur pt ptl s0 (e # post) = Inr schema'"
    by (auto simp: db_loop_append split: sum.splits)
  let ?d0 = "\<lparr>d_name = db_id e, d_tables = []\<rparr>"
  from run1 obtain s1 where
    s1: "tables_loop lower cur pt ptl (db_id e) (AList.update (db_id e) ?d0 s0)
           (table_names_original e) = Inr s1" and
    rest: "db_loop lower cur pt ptl s1 post = Inr schema'"
    by (auto split: sum.splits)
  have "map_of (AList.update (db_id e) ?d0 s0) (db_id e) = Some ?d0"
    by (simp add: update_conv')
  from tables_loop_Inr [OF s1 this] obtain d where
    d: "map_of s1 (db_id e) = Some d" "d_name d = db_id e"
      "\<forall>k. (\<exists>T \<in> set (table_names_original e). resolve_table lower pt ptl T = Some k) \<longrightarrow>
         (\<exists>i. fill_table_info cur k = Inr i \<and> map_of (d_tables d) k = Some i)"
      "\<forall>k. \<not> (\<exists>T \<in> set (table_names_original e). resolve_table lower pt ptl T = Some k) \<longrightarrow>
         map_of (d_tables d) k = None"
    by auto
  have "map_of schema' (db_id e) = map_of s1 (db_id e)"
    using rest last by (rule db_loop_other)
  with d show ?thesis by auto
qed

lemma run_Inr:
  assumes "get_bird_pg_schema_dict lower connect man s = (tr, Inr schema)"
  obtains cur pg_tables where "connect s = Inr cur" "get_tables cur = Inr pg_tables"
    "db_loop lower cur pg_tables (lower_dict lower pg_tables) [] man = Inr schema" "tr = [Connect, Close]"
  using assms by (auto simp: get_bird_pg_schema_dict_def Let_def split: sum.splits)

subsection \<open>The whole run\<close>

lemma run_entry:
  assumes run: "get_bird_pg_schema_dict lower connect (pre @ e # post) s = (tr, Inr schema)"
    and con: "connect s = Inr cur"
    and tabs: "get_tables cur = Inr pg_tables"
    and last: "db_id e \<notin> db_id ` set post"
  shows "\<exists>d. map_of schema (db_id e) = Some d \<and> d_name d = db_id e \<and>
     (\<forall>k. (\<exists>T \<in> set (table_names_original e).
              resolve_table lower pg_tables (lower_dict lower pg_tables) T = Some k) \<longrightarrow>
         (\<exists>i. fill_table_info cur k = Inr i \<and> map_of (d_tables d) k = Some i)) \<and>
     (\<forall>k. \<not> (\<exists>T \<in> set (table_names_original e).
              resolve_table lower pg_tables (lower_dict lower pg_tables) T = Some k) \<longrightarrow>
         map_of (d_tables d) k = None)"
proof -
  from run obtain cur' pg' where
    "connect s = Inr cur'" "get_tables cur' = Inr pg'"
    "db_loop lower cur' pg' (lower_dict lower pg') [] (pre @ e # post) = Inr schema"
    by (rule run_Inr)
  with con tabs have "db_loop lower cur pg_tables (lower_dict lower pg_tables) [] (pre @ e # post) = Inr schema"
    by simp
  then show ?thesis
    using last by (rule db_loop_last)
qed


lemma tables_loop_distinct:
  "tables_loop lower cur pt ptl dbid schema tabs = Inr schema' \<Longrightarrow> distinct (map fst schema) \<Longrightarrow>
   distinct (map fst schema')"
proof (induction tabs arbitrary: schema)
  case Nil
  then show ?case by simp
next
  case (Cons T tabs)
  then show ?case
    by (auto simp: store_table_def distinct_map_entry split: option.splits sum.splits)
qed

lemma db_loop_distinct:
  "db_loop lower cur pt ptl schema man = Inr schema' \<Longrightarrow> distinct (map fst schema) \<Longrightarrow>
   distinct (map fst schema')"
proof (induction man arbitrary: schema)
  case Nil
  then show ?case by simp
next
  case (Cons e man)
  then show ?case
    by (auto simp: distinct_update split: sum.splits dest!: tables_loop_distinct)
qed

lemma run_distinct:
  assumes "get_bird_pg_schema_dict lower connect man s = (tr, Inr schema)"
  shows "distinct (map fst schema)"
proof -
  from assms obtain cur pg where "db_loop lower cur pg (lower_dict lower pg) [] man = Inr schema"
    by (rule run_Inr)
  then show ?thesis by (rule db_loop_distinct) simp
qed

lemma sorted_get_tables: "get_tables cur = Inr pg_tables \<Longrightarrow> sorted pg_tables"
  by (auto simp: get_tables_def split: sum.splits)

lemma set_get_tables: "get_tables cur = Inr pg_tables \<Longrightarrow> set pg_tables = set (select_tables cur)"
  by (auto simp: get_tables_def split: sum.splits dest: fetchall_Inr)


lemma sorted_le_last: "sorted xs \<Longrightarrow> x \<in> set xs \<Longrightarrow> x \<le> last xs"
  for xs :: "'a::linorder list"
  by (induction xs) auto

lemma run_loop:
  assumes "get_bird_pg_schema_dict lower connect man s = (tr, Inr schema)"
    and "connect s = Inr cur"
    and "get_tables cur = Inr pg_tables"
  shows "db_loop lower cur pg_tables (lower_dict lower pg_tables) [] man = Inr schema"
proof -
  from assms(1) obtain cur' pg' where
    "connect s = Inr cur'" "get_tables cur' = Inr pg'"
    "db_loop lower cur' pg' (lower_dict lower pg') [] man = Inr schema"
    by (rule run_Inr)
  with assms(2,3) show ?thesis by simp
qed

lemma db_loop_prefix:
  "db_loop lower cur pt ptl schema (xs @ ys) = Inr schema' \<Longrightarrow>
   \<exists>s. db_loop lower cur pt ptl schema xs = Inr s \<and> db_loop lower cur pt ptl s ys = Inr schema'"
  by (auto simp: db_loop_append split: sum.splits)

text \<open>
  The value of \<open>schema\<close> when the outer loop has finished the entry \<open>e\<close>, and what is
  left of it at the end of the run.
\<close>

lemma run_entry_state:
  assumes run: "get_bird_pg_schema_dict lower connect (pre @ e # post) s = (tr, Inr schema)"
    and con: "connect s = Inr cur"
    and tabs: "get_tables cur = Inr pg_tables"
  shows "\<exists>schema_e d.
     db_loop lower cur pg_tables (lower_dict lower pg_tables) [] (pre @ [e]) = Inr schema_e \<and>
     map_of schema_e (db_id e) = Some d \<and> d_name d = db_id e \<and>
     (db_id e \<notin> db_id ` set post \<longrightarrow> map_of schema (db_id e) = Some d) \<and>
     (\<forall>k. (\<exists>T \<in> set (table_names_original e).
              resolve_table lower pg_tables (lower_dict lower pg_tables) T = Some k) \<longrightarrow>
         (\<exists>i. fill_table_info cur k = Inr i \<and> map_of (d_tables d) k = Some i)) \<and>
     (\<forall>k. \<not> (\<exists>T \<in> set (table_names_original e).
              resolve_table lower pg_tables (lower_dict lower pg_tables) T = Some k) \<longrightarrow>
         map_of (d_tables d) k = None)"
proof -
  have "db_loop lower cur pg_tables (lower_dict lower pg_tables) [] ((pre @ [e]) @ post) = Inr schema"
    using run_loop [OF run con tabs] by simp
  from db_loop_prefix [OF this] obtain schema_e where
    first: "db_loop lower cur pg_tables (lower_dict lower pg_tables) [] (pre @ [e]) = Inr schema_e" and
    rest: "db_loop lower cur pg_tables (lower_dict lower pg_tables) schema_e post = Inr schema"
    by blast
  have "db_id e \<notin> db_id ` set []" by simp
  from db_loop_last [OF first this] obtain d where
    d: "map_of schema_e (db_id e) = Some d" "d_name d = db_id e"
      "\<forall>k. (\<exists>T \<in> set (table_names_original e).
              resolve_table lower pg_tables (lower_dict lower pg_tables) T = Some k) \<longrightarrow>
         (\<exists>i. fill_table_info cur k = Inr i \<and> map_of (d_tables d) k = Some i)"
      "\<forall>k. \<not> (\<exists>T \<in> set (table_names_original e).
              resolve_table lower pg_tables (lower_dict lower pg_tables) T = Some k) \<longrightarrow>
         map_of (d_tables d) k = None"
    by blast
  have keep: "map_of schema (db_id e) = Some d" if "db_id e \<notin> db_id ` set post"
    using db_loop_other [OF rest that] d(1) by simp
  from first d keep show ?thesis by blast
qed



subsection \<open>Claims about the column builder and the table assembler\<close>

text \<open>
  Claim C2, on the code. In a database where the foreign key of \<open>y\<close> (on \<open>y.val\<close>) has
  the name of the primary key of \<open>x\<close> (on \<open>x.id\<close>), the primary key of \<open>x\<close> covers
  \<open>id\<close> alone. The query of \<open>get_primary_keys\<close> for \<open>x\<close> joins the key-column rows
  on the constraint name and not on the table, so it also returns \<open>val\<close>, and the
  column builder sets the primary-key flag of \<open>x.val\<close>, a column outside the key.
\<close>

theorem C2_flag_outside_key:
  "table_primary_key_columns collide_db ''x'' = [''id''] \<and>
   select_primary_keys collide_db ''x'' = [''id'', ''val''] \<and>
   (case get_columns collide_db ''x'' of
      Inl e \<Rightarrow> []
    | Inr cols \<Rightarrow> map (\<lambda>c. (c_name c, c_primary_key c)) cols)
     = [(''id'', True), (''val'', True)]"
proof -
  have a: "table_primary_key_columns collide_db ''x'' = [''id'']"
    by code_simp
  have b: "select_primary_keys collide_db ''x'' = [''id'', ''val'']"
    by code_simp
  have c: "(case get_columns collide_db ''x'' of
      Inl e \<Rightarrow> []
    | Inr cols \<Rightarrow> map (\<lambda>c. (c_name c, c_primary_key c)) cols)
     = [(''id'', True), (''val'', True)]"
    by code_simp
  from a b c show ?thesis
    by (intro conjI)
qed

lemma shop_orders_fks:
  "(case get_columns shop_db ''orders'' of
      Inl e \<Rightarrow> False
    | Inr cols \<Rightarrow> map (\<lambda>c. (c_name c, c_foreign_keys c)) cols =
        [(''id'', []),
         (''customer_id'', [\<lparr>target_table = ''Customers'', target_column = ''id''\<rparr>]),
         (''note'', [])])"
  by code_simp

text \<open>
  Claim C3. Whenever the column builder returns, the \<open>foreign_keys\<close> list of each
  descriptor is the list of targets of the foreign-key rows whose source column is the
  descriptor's column, in the order the query returned them. So every returned row
  \<open>(src_col, target_table, target_col)\<close> has its target in the list of the descriptor
  for \<open>src_col\<close>, and a column with no such row has the empty list.
\<close>

theorem C3_foreign_keys_by_column:
  assumes "get_columns cur table = Inr cols"
  shows "(\<forall>c \<in> set cols. c_foreign_keys c =
            [\<lparr>target_table = ft, target_column = fc\<rparr>.
               (col, ft, fc) \<leftarrow> select_foreign_keys cur table, col = c_name c]) \<and>
    (\<forall>c \<in> set cols. \<forall>(col, ft, fc) \<in> set (select_foreign_keys cur table).
        col = c_name c \<longrightarrow> \<lparr>target_table = ft, target_column = fc\<rparr> \<in> set (c_foreign_keys c)) \<and>
    (\<forall>c \<in> set cols. c_name c \<notin> fst ` set (select_foreign_keys cur table) \<longrightarrow>
        c_foreign_keys c = [])"
proof -
  have eq: "c_foreign_keys c =
            [\<lparr>target_table = ft, target_column = fc\<rparr>.
               (col, ft, fc) \<leftarrow> select_foreign_keys cur table, col = c_name c]"
    if "c \<in> set cols" for c
    using get_columns_Inr [OF assms] that by auto
  have mem: "\<lparr>target_table = ft, target_column = fc\<rparr> \<in> set (c_foreign_keys c)"
    if "c \<in> set cols" "(c_name c, ft, fc) \<in> set (select_foreign_keys cur table)" for c ft fc
    using fk_refs_member [OF that(2)] by (simp only: eq [OF that(1)])
  have emp: "c_foreign_keys c = []"
    if "c \<in> set cols" "c_name c \<notin> fst ` set (select_foreign_keys cur table)" for c
    using fk_refs_empty [OF that(2)] by (simp only: eq [OF that(1)])
  show ?thesis
  proof (intro conjI ballI impI)
    fix c assume "c \<in> set cols"
    then show "c_foreign_keys c =
            [\<lparr>target_table = ft, target_column = fc\<rparr>.
               (col, ft, fc) \<leftarrow> select_foreign_keys cur table, col = c_name c]"
      by (rule eq)
  next
    fix c row assume c: "c \<in> set cols" and row: "row \<in> set (select_foreign_keys cur table)"
    obtain col ft fc where r: "row = (col, ft, fc)" by (cases row) auto
    show "case row of (col, ft, fc) \<Rightarrow>
        col = c_name c \<longrightarrow> \<lparr>target_table = ft, target_column = fc\<rparr> \<in> set (c_foreign_keys c)"
      using mem [OF c] row by (auto simp: r)
  next
    fix c assume "c \<in> set cols" "c_name c \<notin> fst ` set (select_foreign_keys cur table)"
    then show "c_foreign_keys c = []" by (rule emp)
  qed
qed

theorem C3_foreign_keys_by_column_witness:
  "\<exists>cols. get_columns shop_db ''orders'' = Inr cols \<and>
     select_foreign_keys shop_db ''orders'' = [(''customer_id'', ''Customers'', ''id'')] \<and>
     map (\<lambda>c. (c_name c, c_foreign_keys c)) cols =
        [(''id'', []),
         (''customer_id'', [\<lparr>target_table = ''Customers'', target_column = ''id''\<rparr>]),
         (''note'', [])] \<and>
     (\<forall>c \<in> set cols. c_foreign_keys c =
            [\<lparr>target_table = ft, target_column = fc\<rparr>.
               (col, ft, fc) \<leftarrow> select_foreign_keys shop_db ''orders'', col = c_name c])"
proof -
  from shop_orders_fks obtain cols where
    cols: "get_columns shop_db ''orders'' = Inr cols" and
    fks: "map (\<lambda>c. (c_name c, c_foreign_keys c)) cols =
        [(''id'', []),
         (''customer_id'', [\<lparr>target_table = ''Customers'', target_column = ''id''\<rparr>]),
         (''note'', [])]"
    by (cases "get_columns shop_db ''orders''") auto
  have rows: "select_foreign_keys shop_db ''orders'' = [(''customer_id'', ''Customers'', ''id'')]"
    by code_simp
  have "\<forall>c \<in> set cols. c_foreign_keys c =
            [\<lparr>target_table = ft, target_column = fc\<rparr>.
               (col, ft, fc) \<leftarrow> select_foreign_keys shop_db ''orders'', col = c_name c]"
    using C3_foreign_keys_by_column [OF cols] by (rule conjunct1)
  with cols fks rows show ?thesis
    by (intro exI [of _ cols] conjI)
qed

lemma weird_sample_sql:
  "sample_sql ''t'' weird_column =
     (''SELECT '' @ [dquote] @ ''c'' @ [dquote] @ '' FROM '' @ [dquote] @ ''t'' @ [dquote] @ '' '') @
     (''--'' @ [dquote] @ '' FROM '' @ [dquote] @ ''t'' @ [dquote] @ '' WHERE '' @ [dquote] @
      weird_column @ [dquote] @ '' IS NOT NULL LIMIT 5;'')"
  by (simp add: sample_sql_def weird_column_def)

text \<open>
  Claim C8, on the code. The names of the sampling statement are put between double
  quotes without escaping. For the column of table \<open>t\<close> whose name is
  \<open>weird_column\<close>, the text of the statement is a select of the whole column \<open>c\<close>
  followed by a comment: the condition and the limit are not part of it. The column
  builder returns seven samples for that column, one of them the rendering of
  \<^verbatim>\<open>NULL\<close>; for the column \<open>c\<close> itself it returns five, none of \<^verbatim>\<open>NULL\<close>.
\<close>

theorem C8_samples_of_quoted_name:
  "(case get_columns quote_db ''t'' of
      Inl e \<Rightarrow> []
    | Inr cols \<Rightarrow> map (\<lambda>c. (c_name c, c_value_samples c)) cols)
     = [(''c'', [''a'', ''b'', ''d'', ''e'', ''f'']),
        (weird_column, [''a'', ''b'', ''None'', ''d'', ''e'', ''f'', ''g''])] \<and>
   (case get_columns quote_db ''t'' of
      Inl e \<Rightarrow> []
    | Inr cols \<Rightarrow>
        map (\<lambda>c. (length (c_value_samples c), py_str PgNull \<in> set (c_value_samples c))) cols)
     = [(5, False), (7, True)]"
proof -
  have a: "(case get_columns quote_db ''t'' of
      Inl e \<Rightarrow> []
    | Inr cols \<Rightarrow> map (\<lambda>c. (c_name c, c_value_samples c)) cols)
     = [(''c'', [''a'', ''b'', ''d'', ''e'', ''f'']),
        (weird_column, [''a'', ''b'', ''None'', ''d'', ''e'', ''f'', ''g''])]"
    by code_simp
  have b: "(case get_columns quote_db ''t'' of
      Inl e \<Rightarrow> []
    | Inr cols \<Rightarrow>
        map (\<lambda>c. (length (c_value_samples c), py_str PgNull \<in> set (c_value_samples c))) cols)
     = [(5, False), (7, True)]"
    by code_simp
  from a b show ?thesis
    by (intro conjI)
qed

lemma shop_orders_info:
  "(case fill_table_info shop_db ''orders'' of
      Inl e \<Rightarrow> False
    | Inr i \<Rightarrow> map (\<lambda>c. (c_name c, c_type c)) (t_columns i) =
        [(''id'', ''INTEGER''), (''customer_id'', ''INTEGER''), (''note'', ''TEXT'')])"
  by code_simp

text \<open>
  Claim C9. Whenever the table assembler returns a record, the record carries the table
  name it was asked for, its \<open>columns\<close> are the list the column builder returned, and
  their names and types follow the catalog's column rows of that table sorted by
  ordinal position (all of them, each once per row).
\<close>

theorem C9_column_order:
  assumes "fill_table_info cur table = Inr i"
  shows "t_name i = table \<and> get_columns cur table = Inr (t_columns i) \<and>
    map c_name (t_columns i) = map col_column_name (ordered_columns cur table) \<and>
    map c_type (t_columns i) = map (\<lambda>c. upper (col_data_type c)) (ordered_columns cur table) \<and>
    sorted (map col_ordinal_position (ordered_columns cur table)) \<and>
    mset (ordered_columns cur table) = mset [c \<leftarrow> is_columns cur. col_table_name c = table]"
proof -
  from assms have n: "t_name i = table" and g: "get_columns cur table = Inr (t_columns i)"
    using fill_table_info_Inr by auto
  have names: "map c_name (t_columns i) = map col_column_name (ordered_columns cur table)"
    using get_columns_names [OF g] by (simp add: select_columns_def comp_def)
  have types: "map c_type (t_columns i) = map (\<lambda>c. upper (col_data_type c)) (ordered_columns cur table)"
    by (subst get_columns_Inr [OF g]) (simp add: select_columns_def comp_def)
  have srt: "sorted (map col_ordinal_position (ordered_columns cur table))"
    by (simp add: ordered_columns_def)
  have perm: "mset (ordered_columns cur table) = mset [c \<leftarrow> is_columns cur. col_table_name c = table]"
    by (simp add: ordered_columns_def)
  from n g names types srt perm show ?thesis
    by (intro conjI)
qed

theorem C9_column_order_witness:
  "\<exists>i. fill_table_info shop_db ''orders'' = Inr i \<and> t_name i = ''orders'' \<and>
     map (\<lambda>c. (c_name c, c_type c)) (t_columns i) =
        [(''id'', ''INTEGER''), (''customer_id'', ''INTEGER''), (''note'', ''TEXT'')] \<and>
     map col_ordinal_position (ordered_columns shop_db ''orders'') = [1, 2, 3] \<and>
     map c_name (t_columns i) = map col_column_name (ordered_columns shop_db ''orders'')"
proof -
  from shop_orders_info obtain i where
    i: "fill_table_info shop_db ''orders'' = Inr i" and
    cols: "map (\<lambda>c. (c_name c, c_type c)) (t_columns i) =
        [(''id'', ''INTEGER''), (''customer_id'', ''INTEGER''), (''note'', ''TEXT'')]"
    by (cases "fill_table_info shop_db ''orders''") auto
  have pos: "map col_ordinal_position (ordered_columns shop_db ''orders'') = [1, 2, 3]"
    by code_simp
  note c9 = C9_column_order [OF i]
  from c9 have n: "t_name i = ''orders''" by (rule conjunct1)
  from c9 have o: "map c_name (t_columns i) = map col_column_name (ordered_columns shop_db ''orders'')"
    by simp
  from i n cols pos o show ?thesis
    by (intro exI [of _ i] conjI)
qed


subsection \<open>Claims about the schema assembler\<close>

lemma shop_run:
  "(case get_bird_pg_schema_dict ascii_lower shop_connect shop_manifest (Some ''host=shop'') of
      (tr, Inl e) \<Rightarrow> False
    | (tr, Inr schema) \<Rightarrow>
        tr = [Connect, Close] \<and>
        map (\<lambda>(k, d). (k, d_name d, map (\<lambda>(t, i). (t, t_name i)) (d_tables d))) schema =
          [(''shop'', ''shop'', [(''Customers'', ''Customers''), (''orders'', ''orders'')])])"
  by code_simp

lemma shop_tables: "get_tables shop_db = Inr [''Customers'', ''orders'']"
  by code_simp

lemma shop_connect_ok: "shop_connect (Some ''host=shop'') = Inr shop_db"
  by (simp add: shop_connect_def)

text \<open>
  Claim C1. Take a run of the schema assembler that returns, any entry \<open>e\<close> of the
  manifest and any table name \<open>T\<close> of that entry; let \<open>schema_e\<close> be the value of
  \<open>schema\<close> when the outer loop has finished \<open>e\<close>, and \<open>d\<close> the record of the entry's
  database in it. If \<open>T\<close> is one of the live table names, resolution returns \<open>T\<close>
  itself, and the \<open>tables\<close> of \<open>d\<close> have under the key \<open>T\<close> the record of
  \<open>fill_table_info\<close> for \<open>T\<close>, whose \<open>name\<close> is \<open>T\<close>. Otherwise, if the lower-cased
  \<open>T\<close> is a key of the dictionary from lower-cased live names to live names, resolution
  returns the live name \<open>r\<close> stored there, which differs from \<open>T\<close> and has the same
  lower-casing, and \<open>r\<close> is the key and the \<open>name\<close> of the record. When no later entry has
  the \<open>db_id\<close> of \<open>e\<close>, \<open>d\<close> is the record of that database in the output.
\<close>

theorem C1_table_name_resolution:
  assumes run: "get_bird_pg_schema_dict lower connect (pre @ e # post) s = (tr, Inr schema)"
    and con: "connect s = Inr cur"
    and tabs: "get_tables cur = Inr pg_tables"
    and T: "T \<in> set (table_names_original e)"
  shows "\<exists>schema_e d.
     db_loop lower cur pg_tables (lower_dict lower pg_tables) [] (pre @ [e]) = Inr schema_e \<and>
     map_of schema_e (db_id e) = Some d \<and>
     (db_id e \<notin> db_id ` set post \<longrightarrow> map_of schema (db_id e) = Some d) \<and>
     (T \<in> set pg_tables \<longrightarrow>
        resolve_table lower pg_tables (lower_dict lower pg_tables) T = Some T \<and>
        (\<exists>i. map_of (d_tables d) T = Some i \<and> fill_table_info cur T = Inr i \<and> t_name i = T)) \<and>
     (T \<notin> set pg_tables \<and> lower T \<in> fst ` set (lower_dict lower pg_tables) \<longrightarrow>
        (\<exists>r. map_of (lower_dict lower pg_tables) (lower T) = Some r \<and>
             resolve_table lower pg_tables (lower_dict lower pg_tables) T = Some r \<and>
             r \<in> set pg_tables \<and> r \<noteq> T \<and> lower r = lower T \<and>
             (\<exists>i. map_of (d_tables d) r = Some i \<and> fill_table_info cur r = Inr i \<and>
                  t_name i = r)))"
proof -
  from run_entry_state [OF run con tabs] obtain schema_e d where
    first: "db_loop lower cur pg_tables (lower_dict lower pg_tables) [] (pre @ [e]) = Inr schema_e" and
    d: "map_of schema_e (db_id e) = Some d" and
    keep: "db_id e \<notin> db_id ` set post \<longrightarrow> map_of schema (db_id e) = Some d" and
    stored: "\<forall>k. (\<exists>T \<in> set (table_names_original e).
              resolve_table lower pg_tables (lower_dict lower pg_tables) T = Some k) \<longrightarrow>
         (\<exists>i. fill_table_info cur k = Inr i \<and> map_of (d_tables d) k = Some i)"
    by blast
  have key: "\<exists>i. map_of (d_tables d) k = Some i \<and> fill_table_info cur k = Inr i \<and> t_name i = k"
    if "resolve_table lower pg_tables (lower_dict lower pg_tables) T = Some k" for k
  proof -
    from stored that T obtain i where
      i: "fill_table_info cur k = Inr i" "map_of (d_tables d) k = Some i"
      by blast
    from i(1) have "t_name i = k" by (simp add: fill_table_info_Inr)
    with i show ?thesis by blast
  qed
  have exact: "resolve_table lower pg_tables (lower_dict lower pg_tables) T = Some T \<and>
        (\<exists>i. map_of (d_tables d) T = Some i \<and> fill_table_info cur T = Inr i \<and> t_name i = T)"
    if "T \<in> set pg_tables"
  proof -
    from that have "resolve_table lower pg_tables (lower_dict lower pg_tables) T = Some T"
      by (rule resolve_table_exact)
    with key [OF this] show ?thesis by simp
  qed
  have fallback: "\<exists>r. map_of (lower_dict lower pg_tables) (lower T) = Some r \<and>
             resolve_table lower pg_tables (lower_dict lower pg_tables) T = Some r \<and>
             r \<in> set pg_tables \<and> r \<noteq> T \<and> lower r = lower T \<and>
             (\<exists>i. map_of (d_tables d) r = Some i \<and> fill_table_info cur r = Inr i \<and>
                  t_name i = r)"
    if notin: "T \<notin> set pg_tables" and low: "lower T \<in> fst ` set (lower_dict lower pg_tables)"
  proof -
    from low obtain r where r: "map_of (lower_dict lower pg_tables) (lower T) = Some r"
      by (cases "map_of (lower_dict lower pg_tables) (lower T)") (auto simp: map_of_eq_None_iff)
    from notin r have res: "resolve_table lower pg_tables (lower_dict lower pg_tables) T = Some r"
      by (simp add: resolve_table_fallback)
    from r have live: "r \<in> set pg_tables" "lower r = lower T"
      by (auto dest: map_of_lower_dict_Some)
    with notin have "r \<noteq> T" by auto
    with r res live key [OF res] show ?thesis by blast
  qed
  from first d keep exact fallback show ?thesis
    by (intro exI [of _ schema_e] exI [of _ d]) blast
qed

lemma ghost_run:
  "(case get_bird_pg_schema_dict ascii_lower shop_connect ghost_manifest (Some ''host=shop'') of
      (tr, Inl e) \<Rightarrow> False
    | (tr, Inr schema) \<Rightarrow>
        tr = [Connect, Close] \<and>
        map (\<lambda>(k, d). (k, d_name d, map fst (d_tables d))) schema =
          [(''shop'', ''shop'', [''orders''])])"
  by code_simp

theorem C1_table_name_resolution_witness:
  "(\<exists>schema d. get_bird_pg_schema_dict ascii_lower shop_connect shop_manifest (Some ''host=shop'')
        = ([Connect, Close], Inr schema) \<and>
      map_of schema ''shop'' = Some d \<and>
      resolve_table ascii_lower [''Customers'', ''orders'']
        (lower_dict ascii_lower [''Customers'', ''orders'']) ''orders'' = Some ''orders'' \<and>
      (\<exists>i. map_of (d_tables d) ''orders'' = Some i \<and>
           fill_table_info shop_db ''orders'' = Inr i \<and> t_name i = ''orders'') \<and>
      (\<exists>r. map_of (lower_dict ascii_lower [''Customers'', ''orders'']) (ascii_lower ''customers'')
             = Some r \<and>
           r \<in> set [''Customers'', ''orders''] \<and> r \<noteq> ''customers'' \<and>
           ascii_lower r = ascii_lower ''customers'' \<and>
           (\<exists>i. map_of (d_tables d) r = Some i \<and>
                fill_table_info shop_db r = Inr i \<and> t_name i = r))) \<and>
   (\<exists>schema_e d i.
      db_loop ascii_lower shop_db [''Customers'', ''orders'']
        (lower_dict ascii_lower [''Customers'', ''orders'']) []
        [\<lparr>db_id = ''shop'', table_names_original = [''ghost_table'', ''Customers'']\<rparr>]
        = Inr schema_e \<and>
      map_of schema_e ''shop'' = Some d \<and>
      map_of (d_tables d) ''Customers'' = Some i \<and> t_name i = ''Customers'')"
proof -
  let ?e = "\<lparr>db_id = ''shop'', table_names_original = [''customers'', ''ghost_table'', ''orders'']\<rparr>"
  let ?g1 = "\<lparr>db_id = ''shop'', table_names_original = [''ghost_table'', ''Customers'']\<rparr>"
  let ?g2 = "\<lparr>db_id = ''shop'', table_names_original = [''orders'']\<rparr>"
  let ?pg = "[''Customers'', ''orders'']"
  from shop_run obtain schema where
    run: "get_bird_pg_schema_dict ascii_lower shop_connect shop_manifest (Some ''host=shop'')
            = ([Connect, Close], Inr schema)"
    by (cases "get_bird_pg_schema_dict ascii_lower shop_connect shop_manifest (Some ''host=shop'')")
       (auto split: sum.splits)
  then have run': "get_bird_pg_schema_dict ascii_lower shop_connect ([] @ ?e # [])
            (Some ''host=shop'') = ([Connect, Close], Inr schema)"
    by (simp add: shop_manifest_def)
  have T1: "''orders'' \<in> set (table_names_original ?e)" by simp
  have T2: "''customers'' \<in> set (table_names_original ?e)" by simp
  have in1: "''orders'' \<in> set ?pg" by simp
  have out2: "''customers'' \<notin> set ?pg" by simp
  have "ascii_lower ''customers'' \<in> ascii_lower ` set ?pg" by code_simp
  then have low2: "ascii_lower ''customers'' \<in> fst ` set (lower_dict ascii_lower ?pg)"
    by (simp only: keys_lower_dict)
  from C1_table_name_resolution [OF run' shop_connect_ok shop_tables T1] in1 obtain d1 where
    d1: "map_of schema ''shop'' = Some d1" and
    a: "resolve_table ascii_lower ?pg (lower_dict ascii_lower ?pg) ''orders'' = Some ''orders''"
      "\<exists>i. map_of (d_tables d1) ''orders'' = Some i \<and>
           fill_table_info shop_db ''orders'' = Inr i \<and> t_name i = ''orders''"
    by auto
  from C1_table_name_resolution [OF run' shop_connect_ok shop_tables T2] out2 low2 obtain d2 where
    d2: "map_of schema ''shop'' = Some d2" and
    b: "\<exists>r. map_of (lower_dict ascii_lower ?pg) (ascii_lower ''customers'') = Some r \<and>
           r \<in> set ?pg \<and> r \<noteq> ''customers'' \<and> ascii_lower r = ascii_lower ''customers'' \<and>
           (\<exists>i. map_of (d_tables d2) r = Some i \<and>
                fill_table_info shop_db r = Inr i \<and> t_name i = r)"
    by auto
  from d1 d2 have "d2 = d1" by simp
  with run d1 a b have first:
    "\<exists>schema d. get_bird_pg_schema_dict ascii_lower shop_connect shop_manifest (Some ''host=shop'')
        = ([Connect, Close], Inr schema) \<and>
      map_of schema ''shop'' = Some d \<and>
      resolve_table ascii_lower ?pg (lower_dict ascii_lower ?pg) ''orders'' = Some ''orders'' \<and>
      (\<exists>i. map_of (d_tables d) ''orders'' = Some i \<and>
           fill_table_info shop_db ''orders'' = Inr i \<and> t_name i = ''orders'') \<and>
      (\<exists>r. map_of (lower_dict ascii_lower ?pg) (ascii_lower ''customers'') = Some r \<and>
           r \<in> set ?pg \<and> r \<noteq> ''customers'' \<and> ascii_lower r = ascii_lower ''customers'' \<and>
           (\<exists>i. map_of (d_tables d) r = Some i \<and>
                fill_table_info shop_db r = Inr i \<and> t_name i = r))"
    by (intro exI [of _ schema] exI [of _ d1] conjI) simp_all
  from ghost_run obtain gschema where
    grun: "get_bird_pg_schema_dict ascii_lower shop_connect ghost_manifest (Some ''host=shop'')
            = ([Connect, Close], Inr gschema)"
    by (cases "get_bird_pg_schema_dict ascii_lower shop_connect ghost_manifest (Some ''host=shop'')")
       (auto split: sum.splits)
  then have grun': "get_bird_pg_schema_dict ascii_lower shop_connect ([] @ ?g1 # [?g2])
            (Some ''host=shop'') = ([Connect, Close], Inr gschema)"
    by (simp add: ghost_manifest_def)
  have T3: "''Customers'' \<in> set (table_names_original ?g1)" by simp
  have in3: "''Customers'' \<in> set ?pg" by simp
  from C1_table_name_resolution [OF grun' shop_connect_ok shop_tables T3] in3 have second:
    "\<exists>schema_e d i.
      db_loop ascii_lower shop_db ?pg (lower_dict ascii_lower ?pg) [] [?g1] = Inr schema_e \<and>
      map_of schema_e ''shop'' = Some d \<and>
      map_of (d_tables d) ''Customers'' = Some i \<and> t_name i = ''Customers''"
    by auto
  from first second show ?thesis
    by (intro conjI)
qed

lemma twin_tables: "get_tables twin_db = Inr [''Customers'', ''customers'']"
  by code_simp

text \<open>
  Claim C6, amended. The live table names are sorted. When a manifest name \<open>T\<close> has
  no exact match and some live names have the lower-casing of \<open>T\<close>, the dictionary
  from lower-cased names to live names holds the last of them in sorted order (a later
  name replaces an earlier one under the same key), and resolution of \<open>T\<close> returns
  that last name: every live name with the same lower-casing is less than or equal to it.
\<close>

theorem C6_last_entry_wins:
  assumes tabs: "get_tables cur = Inr pg_tables"
    and no_exact: "T \<notin> set pg_tables"
    and t: "t \<in> set pg_tables"
    and same: "lower t = lower T"
  shows "sorted pg_tables \<and>
    (\<exists>r. map_of (lower_dict lower pg_tables) (lower T) = Some r \<and>
         resolve_table lower pg_tables (lower_dict lower pg_tables) T = Some r \<and>
         r = last [t' \<leftarrow> pg_tables. lower t' = lower T] \<and>
         r \<in> set pg_tables \<and> lower r = lower T \<and> t \<le> r)"
proof -
  let ?ms = "[t' \<leftarrow> pg_tables. lower t' = lower T]"
  have srt: "sorted pg_tables"
    using tabs by (rule sorted_get_tables)
  from t same have mem: "t \<in> set ?ms" by simp
  then obtain x xs where ms: "?ms = x # xs"
    by (cases ?ms) auto
  have r: "map_of (lower_dict lower pg_tables) (lower T) = Some (last ?ms)"
    by (simp add: map_of_lower_dict ms)
  from no_exact r have res: "resolve_table lower pg_tables (lower_dict lower pg_tables) T = Some (last ?ms)"
    by (simp add: resolve_table_fallback)
  from r have live: "last ?ms \<in> set pg_tables" "lower (last ?ms) = lower T"
    by (auto dest: map_of_lower_dict_Some)
  from srt have "sorted ?ms"
    by (rule sorted_wrt_filter)
  then have "t \<le> last ?ms"
    using mem by (rule sorted_le_last)
  with srt r res live show ?thesis
    by blast
qed

theorem C6_last_entry_wins_witness:
  "get_tables twin_db = Inr [''Customers'', ''customers''] \<and>
   sorted [''Customers'', ''customers''] \<and>
   (\<exists>r. map_of (lower_dict ascii_lower [''Customers'', ''customers'']) (ascii_lower ''CUSTOMERS'') = Some r \<and>
        resolve_table ascii_lower [''Customers'', ''customers''] (lower_dict ascii_lower [''Customers'', ''customers''])
          ''CUSTOMERS'' = Some r \<and>
        r = ''customers'' \<and> ''Customers'' \<le> r)"
proof -
  let ?pg = "[''Customers'', ''customers'']"
  have no_exact: "''CUSTOMERS'' \<notin> set ?pg" by simp
  have t: "''Customers'' \<in> set ?pg" by simp
  have same: "ascii_lower ''Customers'' = ascii_lower ''CUSTOMERS''" by code_simp
  have lst: "last [t' \<leftarrow> ?pg. ascii_lower t' = ascii_lower ''CUSTOMERS''] = ''customers''"
    by code_simp
  note c6 = C6_last_entry_wins [OF twin_tables no_exact t same]
  from c6 have srt: "sorted ?pg" by (rule conjunct1)
  from c6 lst have "\<exists>r. map_of (lower_dict ascii_lower ?pg) (ascii_lower ''CUSTOMERS'') = Some r \<and>
        resolve_table ascii_lower ?pg (lower_dict ascii_lower ?pg) ''CUSTOMERS'' = Some r \<and>
        r = ''customers'' \<and> ''Customers'' \<le> r"
    by auto
  with twin_tables srt show ?thesis
    by (intro conjI)
qed

text \<open>
  Claim C6 as stated (the first name in sorted order is kept) fails. With the live
  tables \<open>Customers\<close> and \<open>customers\<close>, the first match of \<open>CUSTOMERS\<close> in
  sorted order is \<open>Customers\<close>, and the script resolves it to \<open>customers\<close>.
\<close>

theorem C6_counterexample:
  "get_tables twin_db = Inr [''Customers'', ''customers''] \<and>
   hd [t \<leftarrow> [''Customers'', ''customers'']. ascii_lower t = ascii_lower ''CUSTOMERS''] = ''Customers'' \<and>
   map_of (lower_dict ascii_lower [''Customers'', ''customers'']) (ascii_lower ''CUSTOMERS'') = Some ''customers'' \<and>
   resolve_table ascii_lower [''Customers'', ''customers''] (lower_dict ascii_lower [''Customers'', ''customers''])
     ''CUSTOMERS'' = Some ''customers'' \<and>
   (case get_bird_pg_schema_dict ascii_lower twin_connect twin_manifest (Some ''host=twin'') of
      (tr, Inl e) \<Rightarrow> []
    | (tr, Inr schema) \<Rightarrow> map (\<lambda>(k, d). (k, map (\<lambda>(t, i). (t, t_name i)) (d_tables d))) schema)
     = [(''shop'', [(''customers'', ''customers'')])]"
proof -
  have a: "hd [t \<leftarrow> [''Customers'', ''customers'']. ascii_lower t = ascii_lower ''CUSTOMERS''] = ''Customers''"
    by code_simp
  have b: "map_of (lower_dict ascii_lower [''Customers'', ''customers'']) (ascii_lower ''CUSTOMERS'')
     = Some ''customers''"
    by code_simp
  have c: "resolve_table ascii_lower [''Customers'', ''customers''] (lower_dict ascii_lower [''Customers'', ''customers''])
     ''CUSTOMERS'' = Some ''customers''"
    by code_simp
  have d: "(case get_bird_pg_schema_dict ascii_lower twin_connect twin_manifest (Some ''host=twin'') of
      (tr, Inl e) \<Rightarrow> []
    | (tr, Inr schema) \<Rightarrow> map (\<lambda>(k, d). (k, map (\<lambda>(t, i). (t, t_name i)) (d_tables d))) schema)
     = [(''shop'', [(''customers'', ''customers'')])]"
    by code_simp
  from twin_tables a b c d show ?thesis
    by (intro conjI)
qed




lemma dup_run:
  "(case get_bird_pg_schema_dict ascii_lower shop_connect dup_manifest (Some ''host=shop'') of
      (tr, Inl e) \<Rightarrow> False
    | (tr, Inr schema) \<Rightarrow>
        tr = [Connect, Close] \<and>
        map (\<lambda>(k, d). (k, d_name d, map fst (d_tables d))) schema =
          [(''shop'', ''shop'', [''orders''])])"
  by code_simp

text \<open>
  Claim C10. Take a run of the schema assembler that returns on a manifest with two
  entries \<open>e1\<close>, \<open>e2\<close> of the same \<open>db_id\<close>, \<open>e2\<close> the last one with it. The
  output has one record per \<open>db_id\<close>, and the keys of the \<open>tables\<close> of that
  database are exactly the resolved names of the tables of \<open>e2\<close>: a table that
  resolved only from \<open>e1\<close> is not in the output.
\<close>

theorem C10_duplicate_db_id:
  assumes run: "get_bird_pg_schema_dict lower connect (pre @ e1 # mid @ e2 # post) s = (tr, Inr schema)"
    and con: "connect s = Inr cur"
    and tabs: "get_tables cur = Inr pg_tables"
    and same: "db_id e1 = db_id e2"
    and last: "db_id e2 \<notin> db_id ` set post"
  shows "distinct (map fst schema) \<and>
    (\<exists>d. map_of schema (db_id e2) = Some d \<and> d_name d = db_id e2 \<and>
       fst ` set (d_tables d) =
         {k. \<exists>T \<in> set (table_names_original e2).
               resolve_table lower pg_tables (lower_dict lower pg_tables) T = Some k} \<and>
       (\<forall>k. (\<exists>T \<in> set (table_names_original e1).
                resolve_table lower pg_tables (lower_dict lower pg_tables) T = Some k) \<and>
            \<not> (\<exists>T \<in> set (table_names_original e2).
                resolve_table lower pg_tables (lower_dict lower pg_tables) T = Some k) \<longrightarrow>
            k \<notin> fst ` set (d_tables d)))"
proof -
  have man: "pre @ e1 # mid @ e2 # post = (pre @ e1 # mid) @ e2 # post" by simp
  from run_entry [OF run [unfolded man] con tabs last] obtain d where
    d: "map_of schema (db_id e2) = Some d" "d_name d = db_id e2" and
    a: "\<forall>k. (\<exists>T \<in> set (table_names_original e2).
              resolve_table lower pg_tables (lower_dict lower pg_tables) T = Some k) \<longrightarrow>
         (\<exists>i. fill_table_info cur k = Inr i \<and> map_of (d_tables d) k = Some i)" and
    b: "\<forall>k. \<not> (\<exists>T \<in> set (table_names_original e2).
              resolve_table lower pg_tables (lower_dict lower pg_tables) T = Some k) \<longrightarrow>
         map_of (d_tables d) k = None"
    by blast
  have keys: "k \<in> fst ` set (d_tables d) \<longleftrightarrow>
      (\<exists>T \<in> set (table_names_original e2).
          resolve_table lower pg_tables (lower_dict lower pg_tables) T = Some k)" for k
  proof (cases "\<exists>T \<in> set (table_names_original e2).
          resolve_table lower pg_tables (lower_dict lower pg_tables) T = Some k")
    case True
    with a obtain i where "map_of (d_tables d) k = Some i" by blast
    then have "k \<in> fst ` set (d_tables d)"
      by (metis map_of_eq_None_iff option.distinct(1))
    with True show ?thesis by simp
  next
    case False
    with b have "map_of (d_tables d) k = None" by blast
    then have "k \<notin> fst ` set (d_tables d)"
      by (simp add: map_of_eq_None_iff)
    with False show ?thesis by simp
  qed
  have dom: "fst ` set (d_tables d) =
         {k. \<exists>T \<in> set (table_names_original e2).
               resolve_table lower pg_tables (lower_dict lower pg_tables) T = Some k}"
    using keys by blast
  have dropped: "\<forall>k. (\<exists>T \<in> set (table_names_original e1).
                resolve_table lower pg_tables (lower_dict lower pg_tables) T = Some k) \<and>
            \<not> (\<exists>T \<in> set (table_names_original e2).
                resolve_table lower pg_tables (lower_dict lower pg_tables) T = Some k) \<longrightarrow>
            k \<notin> fst ` set (d_tables d)"
    using keys by blast
  from run_distinct [OF run] d dom dropped show ?thesis
    by (intro conjI exI [of _ d])
qed

theorem C10_duplicate_db_id_witness:
  "\<exists>schema. get_bird_pg_schema_dict ascii_lower shop_connect dup_manifest (Some ''host=shop'')
       = ([Connect, Close], Inr schema) \<and>
     map (\<lambda>(k, d). (k, d_name d, map fst (d_tables d))) schema =
       [(''shop'', ''shop'', [''orders''])] \<and>
     resolve_table ascii_lower [''Customers'', ''orders''] (lower_dict ascii_lower [''Customers'', ''orders''])
       ''Customers'' = Some ''Customers'' \<and>
     distinct (map fst schema) \<and>
     (\<exists>d. map_of schema ''shop'' = Some d \<and> ''Customers'' \<notin> fst ` set (d_tables d))"
proof -
  let ?e1 = "\<lparr>db_id = ''shop'', table_names_original = [''Customers'']\<rparr>"
  let ?e2 = "\<lparr>db_id = ''shop'', table_names_original = [''orders'']\<rparr>"
  let ?pg = "[''Customers'', ''orders'']"
  from dup_run obtain schema where
    run: "get_bird_pg_schema_dict ascii_lower shop_connect dup_manifest (Some ''host=shop'')
            = ([Connect, Close], Inr schema)" and
    out: "map (\<lambda>(k, d). (k, d_name d, map fst (d_tables d))) schema =
       [(''shop'', ''shop'', [''orders''])]"
    by (cases "get_bird_pg_schema_dict ascii_lower shop_connect dup_manifest (Some ''host=shop'')")
       (auto split: sum.splits)
  from run have run': "get_bird_pg_schema_dict ascii_lower shop_connect ([] @ ?e1 # [] @ ?e2 # [])
       (Some ''host=shop'') = ([Connect, Close], Inr schema)"
    by (simp add: dup_manifest_def)
  have same: "db_id ?e1 = db_id ?e2" by simp
  have last: "db_id ?e2 \<notin> db_id ` set []" by simp
  have r1: "resolve_table ascii_lower ?pg (lower_dict ascii_lower ?pg) ''Customers'' = Some ''Customers''"
    by (simp add: resolve_table_def)
  have r2: "resolve_table ascii_lower ?pg (lower_dict ascii_lower ?pg) ''orders'' = Some ''orders''"
    by (simp add: resolve_table_def)
  note c10 = C10_duplicate_db_id [OF run' shop_connect_ok shop_tables same last]
  from c10 have dist: "distinct (map fst schema)" by (rule conjunct1)
  from c10 obtain d where
    d: "map_of schema ''shop'' = Some d" and
    keys: "fst ` set (d_tables d) =
         {k. \<exists>T \<in> set [''orders'']. resolve_table ascii_lower ?pg (lower_dict ascii_lower ?pg) T = Some k}"
    by auto
  from keys r2 have "''Customers'' \<notin> fst ` set (d_tables d)" by simp
  with d have "\<exists>d. map_of schema ''shop'' = Some d \<and> ''Customers'' \<notin> fst ` set (d_tables d)"
    by blast
  with run out r1 dist show ?thesis
    by (intro exI [of _ schema] conjI)
qed

subsection \<open>Claims about the connection\<close>

lemma broken_connect_ok: "broken_connect (Some ''host=shop'') = Inr broken_db"
  by (simp add: broken_connect_def)

text \<open>
  Claim C4, amended. When the schema assembler returns a schema, the connection was
  opened once and closed once, after the loops. When it raises, it has not closed the
  connection: if the connection had been opened (table enumeration or the processing of
  a table raised) the only event is the opening, and if \<^verbatim>\<open>psycopg2.connect\<close> itself
  raised there is no connection.
\<close>

theorem C4_connection_closed_on_return:
  assumes "get_bird_pg_schema_dict lower connect dev_tables_json pg_conn_str = (tr, res)"
  shows "(\<forall>schema. res = Inr schema \<longrightarrow> tr = [Connect, Close]) \<and>
    (\<forall>err. res = Inl err \<longrightarrow> Close \<notin> set tr) \<and>
    (\<forall>err cur. res = Inl err \<and> connect pg_conn_str = Inr cur \<longrightarrow> tr = [Connect]) \<and>
    (\<forall>err. connect pg_conn_str = Inl err \<longrightarrow> tr = [] \<and> res = Inl err)"
  using assms
  by (auto simp: get_bird_pg_schema_dict_def Let_def split: sum.splits)

theorem C4_connection_closed_on_return_witness:
  "(\<exists>schema. get_bird_pg_schema_dict ascii_lower shop_connect shop_manifest (Some ''host=shop'')
       = ([Connect, Close], Inr schema) \<and> count_list [Connect, Close] Close = 1) \<and>
   get_bird_pg_schema_dict ascii_lower broken_connect shop_manifest (Some ''host=shop'')
     = ([Connect], Inl QueryFailed) \<and>
   Close \<notin> set [Connect]"
proof -
  obtain tr res where
    run: "get_bird_pg_schema_dict ascii_lower shop_connect shop_manifest (Some ''host=shop'') = (tr, res)"
    by (cases "get_bird_pg_schema_dict ascii_lower shop_connect shop_manifest (Some ''host=shop'')")
  with shop_run obtain schema where res: "res = Inr schema"
    by (cases res) auto
  from C4_connection_closed_on_return [OF run] res have "tr = [Connect, Close]"
    by simp
  with run res have ok: "\<exists>schema. get_bird_pg_schema_dict ascii_lower shop_connect shop_manifest
      (Some ''host=shop'') = ([Connect, Close], Inr schema) \<and> count_list [Connect, Close] Close = 1"
    by simp
  have bad: "get_bird_pg_schema_dict ascii_lower broken_connect shop_manifest (Some ''host=shop'')
     = ([Connect], Inl QueryFailed)"
    by code_simp
  from C4_connection_closed_on_return [OF bad] have "Close \<notin> set [Connect]"
    by simp
  with ok bad show ?thesis
    by (intro conjI)
qed

text \<open>
  Claim C4 as stated (closed exactly once on every exit path) fails. On a database
  whose sampling query for \<open>orders.note\<close> raises, the assembler opens the connection
  and leaves with the exception, without closing it.
\<close>

theorem C4_counterexample:
  "broken_connect (Some ''host=shop'') = Inr broken_db \<and>
   get_bird_pg_schema_dict ascii_lower broken_connect shop_manifest (Some ''host=shop'')
     = ([Connect], Inl QueryFailed) \<and>
   count_list [Connect] Close = 0"
proof -
  have "get_bird_pg_schema_dict ascii_lower broken_connect shop_manifest (Some ''host=shop'')
     = ([Connect], Inl QueryFailed)"
    by code_simp
  then show ?thesis
    by (simp add: broken_connect_ok)
qed

lemma main_cases:
  "main lower connect dev_tables_json None (Some (c # cs))
     = get_bird_pg_schema_dict lower connect dev_tables_json None \<and>
   main lower connect dev_tables_json (Some flag) getenv = ([], Inl NameError) \<and>
   main lower connect dev_tables_json None None = ([], Inl RuntimeError) \<and>
   main lower connect dev_tables_json None (Some '''') = ([], Inl RuntimeError)"
  by (simp add: main_def main_pg_conn_str_def)

text \<open>
  Claim C5, on the code. With no flag and \<^verbatim>\<open>POSTGRES_CONNECTION_STRING\<close> set to
  \<open>host=shop\<close>, the entry point calls the schema assembler with \<open>None\<close>, not with
  the value of the variable: the run fails to connect, although the assembler called
  with \<open>host=shop\<close> connects and returns. With the flag given, \<^verbatim>\<open>pg_conn_str\<close> is
  never assigned and line 245 raises \<^verbatim>\<open>NameError\<close>. With neither, the run stops with
  \<^verbatim>\<open>RuntimeError\<close> before any connection is opened.
\<close>

theorem C5_environment_value_not_used:
  "main ascii_lower shop_connect shop_manifest None (Some ''host=shop'')
     = get_bird_pg_schema_dict ascii_lower shop_connect shop_manifest None \<and>
   main ascii_lower shop_connect shop_manifest None (Some ''host=shop'') = ([], Inl ConnectionFailed) \<and>
   fst (get_bird_pg_schema_dict ascii_lower shop_connect shop_manifest (Some ''host=shop''))
     = [Connect, Close] \<and>
   main ascii_lower shop_connect shop_manifest (Some ''host=shop'') None = ([], Inl NameError) \<and>
   main ascii_lower shop_connect shop_manifest (Some ''host=shop'') (Some ''host=shop'')
     = ([], Inl NameError) \<and>
   main ascii_lower shop_connect shop_manifest None None = ([], Inl RuntimeError)"
proof -
  have a: "main ascii_lower shop_connect shop_manifest None (Some ''host=shop'')
     = get_bird_pg_schema_dict ascii_lower shop_connect shop_manifest None"
    by (simp add: main_cases)
  have b: "get_bird_pg_schema_dict ascii_lower shop_connect shop_manifest None = ([], Inl ConnectionFailed)"
    by (simp add: get_bird_pg_schema_dict_def shop_connect_def)
  have c: "fst (get_bird_pg_schema_dict ascii_lower shop_connect shop_manifest (Some ''host=shop''))
     = [Connect, Close]"
    by code_simp
  from a b c show ?thesis
    by (simp add: main_cases)
qed

end
